theory Spec2Isabelle
  imports Complex_Main "HOL-Library.Log_Nat" "HOL-Library.AList"
begin

section \<open>JavaScript numbers\<close>

text \<open>
  Every JavaScript number is an IEEE 754 binary64 value. Counters and scores of the
  program are integers far below \<open>2 ^ 53\<close>; sums and products of such integers are exact
  in binary64 and are modelled on \<open>nat\<close> and \<open>int\<close>. Wherever the source divides, or
  multiplies by a decimal literal, the model rounds each operation to binary64: a finite
  value is a rational, and \<open>fl\<close> rounds a rational to the nearest binary64 value, ties
  to even (53 bits of precision, gradual underflow below \<open>2 powi - 1022\<close>; magnitudes from
  \<open>2 ^ 1024\<close> on, where binary64 overflows, do not occur in the program).
\<close>

definition rne :: "rat \<Rightarrow> int" where
  "rne q = (let f = \<lfloor>q\<rfloor>; r = q - of_int f in
     if r < 1 / 2 then f else if 1 / 2 < r then f + 1 else if even f then f else f + 1)"

definition expo :: "rat \<Rightarrow> int" where
  "expo x = (let (a, b) = quotient_of \<bar>x\<bar>; d = bitlen a - bitlen b in
     if 2 powi d \<le> \<bar>x\<bar> then d else d - 1)"

definition fl :: "rat \<Rightarrow> rat" where
  "fl x = (if x = 0 then 0 else
     let e = max (expo x) (- 1022); u = 2 powi (e - 52) in of_int (rne (x / u)) * u)"

definition js_lit :: "rat \<Rightarrow> rat" where
  "js_lit x = fl x"

definition js_add :: "rat \<Rightarrow> rat \<Rightarrow> rat" where
  "js_add x y = fl (x + y)"

definition js_sub :: "rat \<Rightarrow> rat \<Rightarrow> rat" where
  "js_sub x y = fl (x - y)"

definition js_mul :: "rat \<Rightarrow> rat \<Rightarrow> rat" where
  "js_mul x y = fl (x * y)"

definition js_div :: "rat \<Rightarrow> rat \<Rightarrow> rat" where
  "js_div x y = fl (x / y)"

text \<open>\<^verbatim>\<open>Math.round\<close>: the nearest integer, a tie going towards plus infinity.\<close>

definition js_round :: "rat \<Rightarrow> int" where
  "js_round x = \<lfloor>x + 1 / 2\<rfloor>"

section \<open>JavaScript strings\<close>

text \<open>
  Strings are modelled as lists of 8-bit characters, and \<open>trim\<close> and \<open>toLowerCase\<close> on
  ASCII: the white space is the six ASCII characters, the letters lowered are A to Z.
  (\<^verbatim>\<open>String.prototype.trim\<close> also strips the Unicode spaces, and
  \<^verbatim>\<open>toLowerCase\<close> also maps the letters beyond ASCII.)
\<close>

definition isSpace :: "char \<Rightarrow> bool" where
  "isSpace c = (c \<in> set [CHR '' '', CHR 0x09, CHR 0x0A, CHR 0x0B, CHR 0x0C, CHR 0x0D])"

definition trim :: "string \<Rightarrow> string" where
  "trim s = rev (dropWhile isSpace (rev (dropWhile isSpace s)))"

definition startsWith :: "string \<Rightarrow> string \<Rightarrow> bool" where
  "startsWith s p = (take (length p) s = p)"

definition lowerChar :: "char \<Rightarrow> char" where
  "lowerChar c = (case map_of (zip ''ABCDEFGHIJKLMNOPQRSTUVWXYZ'' ''abcdefghijklmnopqrstuvwxyz'') c of
     Some d \<Rightarrow> d | None \<Rightarrow> c)"

definition toLowerCase :: "string \<Rightarrow> string" where
  "toLowerCase s = map lowerChar s"

text \<open>
  \<^verbatim>\<open>path.extname\<close> on a path whose last segment is \<open>name\<close>: the part from the last dot
  on, and the empty string when there is no dot, when the only dot is the first character,
  or for the segment \<^verbatim>\<open>..\<close>.
\<close>

definition extname :: "string \<Rightarrow> string" where
  "extname name = (let suffix = rev (takeWhile (\<lambda>c. c \<noteq> CHR ''.'') (rev name)) in
     if CHR ''.'' \<notin> set name then []
     else if length suffix + 1 = length name then []
     else if name = ''..'' then []
     else CHR ''.'' # suffix)"

text \<open>\<^verbatim>\<open>path.basename\<close> for \<^verbatim>\<open>/\<close>-separated paths.\<close>

definition basename :: "string \<Rightarrow> string" where
  "basename p = rev (takeWhile (\<lambda>c. c \<noteq> CHR ''/'') (dropWhile (\<lambda>c. c = CHR ''/'') (rev p)))"

text \<open>\<^verbatim>\<open>content.split('\n').length\<close>\<close>

definition splitLinesLength :: "string \<Rightarrow> nat" where
  "splitLinesLength content = Suc (length (filter (\<lambda>c. c = CHR 0x0A) content))"

section \<open>Language detection (languageDetector.js)\<close>

definition EXTENSION_MAP :: "(string \<times> string) list" where
  "EXTENSION_MAP = [
    (''.py'', ''Python''), (''.pyw'', ''Python''),
    (''.js'', ''JavaScript''), (''.jsx'', ''JavaScript''),
    (''.ts'', ''TypeScript''), (''.tsx'', ''TypeScript''),
    (''.cpp'', ''C++''), (''.cc'', ''C++''), (''.cxx'', ''C++''),
    (''.c'', ''C''),
    (''.h'', ''C/C++ Header''), (''.hpp'', ''C++ Header''),
    (''.java'', ''Java''), (''.go'', ''Go''), (''.rs'', ''Rust''), (''.rb'', ''Ruby''),
    (''.php'', ''PHP''), (''.cs'', ''C#''), (''.swift'', ''Swift''), (''.kt'', ''Kotlin''),
    (''.scala'', ''Scala''), (''.r'', ''R''), (''.R'', ''R''),
    (''.m'', ''MATLAB/Objective-C''), (''.sql'', ''SQL''),
    (''.sh'', ''Shell''), (''.bash'', ''Shell''), (''.zsh'', ''Shell''),
    (''.ps1'', ''PowerShell''), (''.html'', ''HTML''), (''.css'', ''CSS''),
    (''.scss'', ''SCSS''), (''.sass'', ''Sass''), (''.less'', ''Less''),
    (''.json'', ''JSON''), (''.xml'', ''XML''), (''.yaml'', ''YAML''), (''.yml'', ''YAML''),
    (''.md'', ''Markdown''), (''.vue'', ''Vue''), (''.svelte'', ''Svelte'')]"

definition IGNORE_DIRS :: "string list" where
  "IGNORE_DIRS = [
    ''node_modules'', ''.git'', ''__pycache__'', ''.venv'', ''venv'',
    ''env'', ''.env'', ''dist'', ''build'', ''target'', ''.idea'',
    ''.vscode'', ''vendor'', ''packages'', ''.next'', ''.nuxt'',
    ''coverage'', ''.nyc_output'', ''bower_components'']"

text \<open>
  A snapshot of the file tree as \<^verbatim>\<open>fs.readdir\<close> lists it, in listing order. A file
  carries its name and what reading it gives: its text and its size in bytes, or \<open>None\<close>
  when \<^verbatim>\<open>fs.readFile\<close> or \<^verbatim>\<open>fs.stat\<close> throws. A directory carries its name and its
  listing, \<open>None\<close> when \<^verbatim>\<open>fs.readdir\<close> throws on it. \<open>Other\<close> is an entry that is
  neither a directory nor a regular file.
\<close>

datatype entry =
    File string "(string \<times> nat) option"
  | Dir string "entry list option"
  | Other string

type_synonym visited = "string \<times> (string \<times> nat) option"

text \<open>
  \<^verbatim>\<open>walkDirectory\<close>, returning the files handed to the callback, in order; \<open>Inl\<close> is the
  error of a directory that could not be listed, which rejects the whole walk.
\<close>

fun walkDirectory :: "entry list option \<Rightarrow> string + visited list"
  and walkEntries :: "entry list \<Rightarrow> string + visited list"
  and walkEntry :: "entry \<Rightarrow> string + visited list" where
  "walkDirectory None = Inl ''ENOENT''"
| "walkDirectory (Some entries) = walkEntries entries"
| "walkEntries [] = Inr []"
| "walkEntries (e # es) =
     (case walkEntry e of
        Inl err \<Rightarrow> Inl err
      | Inr fs \<Rightarrow> (case walkEntries es of Inl err \<Rightarrow> Inl err | Inr gs \<Rightarrow> Inr (fs @ gs)))"
| "walkEntry (Dir name sub) =
     (if name \<notin> set IGNORE_DIRS \<and> \<not> startsWith name ''.'' then walkDirectory sub else Inr [])"
| "walkEntry (File name r) = Inr [(name, r)]"
| "walkEntry (Other name) = Inr []"

record fileStats =
  files :: nat
  lines :: nat
  bytes :: nat

type_synonym stats = "(string \<times> fileStats) list"

text \<open>
  The callback of \<^verbatim>\<open>detectLanguages\<close> on one file. \<open>stats\<close> is the object of the
  source, as the list of its entries in insertion order: a new label goes to the end, an
  existing one is updated in place.
\<close>

definition visit :: "stats \<Rightarrow> visited \<Rightarrow> stats" where
  "visit st v =
     (case map_of EXTENSION_MAP (toLowerCase (extname (fst v))) of
        None \<Rightarrow> st
      | Some language \<Rightarrow>
          (let st1 = (if map_of st language = None
                      then st @ [(language, \<lparr>files = 0, lines = 0, bytes = 0\<rparr>)] else st)
           in case snd v of
                Some (content, nbytes) \<Rightarrow>
                  AList.map_entry language
                    (\<lambda>d. \<lparr>files = files d + 1, lines = lines d + splitLinesLength content,
                          bytes = bytes d + nbytes\<rparr>) st1
              | None \<Rightarrow> AList.map_entry language (\<lambda>d. d\<lparr>files := files d + 1\<rparr>) st1))"

record languageStat =
  ls_files :: nat
  ls_lines :: nat
  ls_bytes :: nat
  percentage :: int

record languageStats =
  primary :: "string option"
  breakdown :: "(string \<times> languageStat) list"
  totalFiles :: nat
  totalLines :: nat

text \<open>The loop of \<^verbatim>\<open>detectLanguages\<close> over the entries of \<open>stats\<close>; the state is
  \<open>maxLines\<close>, \<open>primary\<close> and the breakdown so far.\<close>

fun percentLoop :: "nat \<Rightarrow> stats \<Rightarrow> nat \<times> string option \<times> (string \<times> languageStat) list
    \<Rightarrow> nat \<times> string option \<times> (string \<times> languageStat) list" where
  "percentLoop tot [] acc = acc"
| "percentLoop tot ((lang, d) # rest) (maxLines, prim, bd) =
     (let pct = (if 0 < tot
                 then js_round (js_mul (js_div (of_nat (lines d)) (of_nat tot)) 100) else 0);
          bd1 = AList.update lang
                  \<lparr>ls_files = files d, ls_lines = lines d, ls_bytes = bytes d, percentage = pct\<rparr> bd
      in if maxLines < lines d then percentLoop tot rest (lines d, Some lang, bd1)
         else percentLoop tot rest (maxLines, prim, bd1))"

text \<open>\<^verbatim>\<open>Array.prototype.sort\<close> is stable; with the comparator \<^verbatim>\<open>b.lines - a.lines\<close> it
  orders by descending line count.\<close>

definition sortByLines :: "(string \<times> languageStat) list \<Rightarrow> (string \<times> languageStat) list" where
  "sortByLines bd = sort_key (\<lambda>e. - int (ls_lines (snd e))) bd"

definition summarize :: "stats \<Rightarrow> languageStats" where
  "summarize st =
     (let tot = sum_list (map (\<lambda>e. lines (snd e)) st);
          nfiles = sum_list (map (\<lambda>e. files (snd e)) st);
          (maxLines, prim, bd) = percentLoop tot st (0, None, [])
      in \<lparr>primary = prim, breakdown = sortByLines bd, totalFiles = nfiles, totalLines = tot\<rparr>)"

definition detectLanguages :: "entry list option \<Rightarrow> string + languageStats" where
  "detectLanguages repoDir =
     (case walkDirectory repoDir of
        Inl err \<Rightarrow> Inl err
      | Inr visitedFiles \<Rightarrow> Inr (summarize (foldl visit [] visitedFiles)))"

section \<open>Routing to the language analyzers (router.js)\<close>

datatype analyzer = analyzePython | analyzeJavaScript | analyzeCpp

text \<open>The table \<^verbatim>\<open>ANALYZERS\<close>; \<open>None\<close> is the entry \<^verbatim>\<open>null\<close> of the two header labels.\<close>

definition ANALYZERS :: "(string \<times> analyzer option) list" where
  "ANALYZERS = [
    (''Python'', Some analyzePython),
    (''JavaScript'', Some analyzeJavaScript),
    (''TypeScript'', Some analyzeJavaScript),
    (''C++'', Some analyzeCpp),
    (''C'', Some analyzeCpp),
    (''C/C++ Header'', None),
    (''C++ Header'', None)]"

definition SUPPORTED_LANGUAGES :: "string list" where
  "SUPPORTED_LANGUAGES = [''Python'', ''JavaScript'', ''TypeScript'', ''C++'', ''C'']"

text \<open>
  What the router and the aggregator read of a per-language result: \<^verbatim>\<open>score\<close>,
  \<^verbatim>\<open>complexity?.average\<close>, \<^verbatim>\<open>issues?.length\<close> and \<^verbatim>\<open>error\<close>, an absent property
  being \<open>None\<close>.
\<close>

record analysisResult =
  score :: int
  complexityAverage :: "rat option"
  issuesLength :: "nat option"
  error :: "string option"

record codeAnalysis =
  byLanguage :: "(string \<times> analysisResult) list"
  overallScore :: int
  analyzedLanguages :: "string list"
  message :: "string option"

text \<open>
  The analyzers read the cloned repository and run external tools. What
  \<^verbatim>\<open>await analyzer(repoPath)\<close> gives on the repository at hand is a parameter \<open>run\<close>
  of the model: \<open>Inr\<close> the result, \<open>Inl\<close> the message of the error thrown.

  The loop of \<^verbatim>\<open>runAnalyzers\<close>; the state is \<open>results\<close>, \<open>totalWeight\<close> and
  \<open>weightedScore\<close>.
\<close>

fun analyzeLoop :: "(analyzer \<Rightarrow> string + analysisResult) \<Rightarrow> (string \<times> languageStat) list
    \<Rightarrow> codeAnalysis \<times> int \<times> int \<Rightarrow> codeAnalysis \<times> int \<times> int" where
  "analyzeLoop run [] acc = acc"
| "analyzeLoop run ((lang, d) # rest) (results, totalWeight, weightedScore) =
     (case map_of ANALYZERS lang of
        Some (Some a) \<Rightarrow>
          (case run a of
             Inr analysis \<Rightarrow>
               analyzeLoop run rest
                 (results\<lparr>byLanguage := AList.update lang analysis (byLanguage results),
                          analyzedLanguages := analyzedLanguages results @ [lang]\<rparr>,
                  totalWeight + percentage d,
                  weightedScore + analysisResult.score analysis * percentage d)
           | Inl msg \<Rightarrow>
               analyzeLoop run rest
                 (results\<lparr>byLanguage := AList.update lang
                     \<lparr>analysisResult.score = 50, complexityAverage = None, issuesLength = None,
                      error = Some msg\<rparr> (byLanguage results)\<rparr>,
                  totalWeight, weightedScore))
      | _ \<Rightarrow> analyzeLoop run rest (results, totalWeight, weightedScore))"

definition languagesToAnalyze :: "languageStats \<Rightarrow> (string \<times> languageStat) list" where
  "languagesToAnalyze languageStats =
     take 3 (filter (\<lambda>e. fst e \<in> set SUPPORTED_LANGUAGES \<and> 5 \<le> percentage (snd e))
       (breakdown languageStats))"

definition runAnalyzers :: "(analyzer \<Rightarrow> string + analysisResult) \<Rightarrow> languageStats \<Rightarrow> codeAnalysis" where
  "runAnalyzers run languageStats =
     (let results = \<lparr>byLanguage = [], overallScore = 0, analyzedLanguages = [], message = None\<rparr>
      in if languagesToAnalyze languageStats = []
         then results\<lparr>overallScore := 50,
                message := Some ''No supported languages found with significant code''\<rparr>
         else (case analyzeLoop run (languagesToAnalyze languageStats) (results, 0, 0) of
                 (results1, totalWeight, weightedScore) \<Rightarrow>
                   results1\<lparr>overallScore :=
                     (if 0 < totalWeight
                      then js_round (js_div (of_int weightedScore) (of_int totalWeight))
                      else 50)\<rparr>))"

section \<open>Complexity buckets of the analyzers\<close>

record distribution =
  low :: nat
  medium :: nat
  high :: nat
  veryHigh :: nat

text \<open>The object \<^verbatim>\<open>result.complexity\<close>; \<open>maxComplexity\<close> is its property \<^verbatim>\<open>max\<close>.\<close>

record complexity =
  average :: rat
  maxComplexity :: nat
  distribution :: distribution

text \<open>\<^verbatim>\<open>categorizeComplexity\<close> of cppAnalyzer.js\<close>

definition categorizeComplexity_cpp :: "nat \<Rightarrow> complexity \<Rightarrow> complexity" where
  "categorizeComplexity_cpp c r =
     (let d = distribution r;
          d1 = (if c \<le> 5 then d\<lparr>low := low d + 1\<rparr>
                else if c \<le> 10 then d\<lparr>medium := medium d + 1\<rparr>
                else if c \<le> 20 then d\<lparr>high := high d + 1\<rparr>
                else d\<lparr>veryHigh := veryHigh d + 1\<rparr>)
      in r\<lparr>distribution := d1, maxComplexity := max (maxComplexity r) c\<rparr>)"

text \<open>\<^verbatim>\<open>categorizeComplexity\<close> of javascriptAnalyzer.js\<close>

definition categorizeComplexity_js :: "nat \<Rightarrow> complexity \<Rightarrow> complexity" where
  "categorizeComplexity_js c r =
     (let d = distribution r;
          d1 = (if c \<le> 5 then d\<lparr>low := low d + 1\<rparr>
                else if c \<le> 10 then d\<lparr>medium := medium d + 1\<rparr>
                else if c \<le> 20 then d\<lparr>high := high d + 1\<rparr>
                else d\<lparr>veryHigh := veryHigh d + 1\<rparr>)
      in r\<lparr>distribution := d1, maxComplexity := max (maxComplexity r) c\<rparr>)"

text \<open>
  The end of \<^verbatim>\<open>analyzeCpp\<close>, "Calculate complexity average", on the complexity object
  and the counter \<^verbatim>\<open>result.metrics.functions\<close>.
\<close>

definition cppComplexityAverage :: "nat \<Rightarrow> complexity \<Rightarrow> complexity" where
  "cppComplexityAverage functions r =
     (if 0 < functions
      then (let totalComplexity =
                  low (distribution r) * 3 + medium (distribution r) * 7 +
                  high (distribution r) * 15 + veryHigh (distribution r) * 25
            in r\<lparr>average := of_int (js_round (js_div (of_nat totalComplexity) (of_nat functions)))\<rparr>)
      else r)"

section \<open>The Python analyzer's external tools (pythonAnalyzer.js)\<close>

text \<open>
  What \<^verbatim>\<open>execAsync\<close> gives: it resolves with the standard output and error of the
  command, or rejects with an error object whose properties \<^verbatim>\<open>stdout\<close> and
  \<^verbatim>\<open>stderr\<close> hold what the command had printed (\<open>None\<close> for an absent property;
  the promisified \<^verbatim>\<open>exec\<close> always sets both), or the call itself throws before
  it returns a promise (\<open>Threw\<close>).
\<close>

datatype execOutcome =
    Resolved string string
  | Rejected "string option" "string option"
  | Threw

record radonFunc =
  rf_complexity :: nat
  rf_name :: string
  rf_lineno :: nat

record issue =
  issueType :: string
  severity :: string
  issueMessage :: string
  issueFile :: string
  issueLine :: "nat option"

function showNat :: "nat \<Rightarrow> string" where
  "showNat n = (if n < 10 then [char_of (48 + n)] else showNat (n div 10) @ [char_of (48 + n mod 10)])"
  by pat_completeness auto
termination
  by (relation "measure id") auto

text \<open>
  The body of the loop of \<^verbatim>\<open>analyzeComplexity\<close> over the functions radon reports for
  one file. The state holds the variables of the loop and the parts of \<^verbatim>\<open>result\<close> it
  writes: \<open>dist\<close> is \<^verbatim>\<open>result.complexity.distribution\<close>, \<open>issues\<close> is
  \<^verbatim>\<open>result.issues\<close>, \<open>maxSeen\<close> is \<^verbatim>\<open>maxComplexity\<close>.
\<close>

record radonLoop =
  totalComplexity :: nat
  functionCount :: nat
  maxSeen :: nat
  dist :: distribution
  issues :: "issue list"

definition radonStep :: "string \<Rightarrow> radonLoop \<Rightarrow> radonFunc \<Rightarrow> radonLoop" where
  "radonStep file st func =
     (let c = rf_complexity func;
          d = dist st;
          d1 = (if c \<le> 5 then d\<lparr>low := low d + 1\<rparr>
                else if c \<le> 10 then d\<lparr>medium := medium d + 1\<rparr>
                else if c \<le> 20 then d\<lparr>high := high d + 1\<rparr>
                else d\<lparr>veryHigh := veryHigh d + 1\<rparr>);
          is1 = (if 15 < c
                 then issues st @
                   [\<lparr>issueType = ''complexity'',
                     severity = (if 25 < c then ''high'' else ''medium''),
                     issueMessage = ''High complexity ('' @ showNat c @ '') in '' @ rf_name func,
                     issueFile = basename file,
                     issueLine = Some (rf_lineno func)\<rparr>]
                 else issues st)
      in \<lparr>totalComplexity = totalComplexity st + c,
          functionCount = functionCount st + 1,
          maxSeen = max (maxSeen st) c,
          dist = d1,
          issues = is1\<rparr>)"

record pylintIssue =
  pl_type :: string
  pl_message :: string
  pl_path :: "string option"
  pl_line :: nat
  pl_symbol :: string

record styleIssue =
  si_type :: string
  si_message :: string
  si_file :: string
  si_line :: nat
  si_symbol :: string

text \<open>The object \<^verbatim>\<open>result.style\<close> of the Python analyzer.\<close>

record style =
  score :: int
  issues :: "styleIssue list"
  counts :: "(string \<times> nat) list option"
  error :: "string option"

text \<open>
  The loop over pylint's issues. \<^verbatim>\<open>path.basename\<close> throws on an issue without a
  path; the flag of the result is \<open>False\<close> then, and the issues stored so far stay.
\<close>

fun styleLoop :: "pylintIssue list \<Rightarrow> (string \<times> nat) list \<times> styleIssue list
    \<Rightarrow> ((string \<times> nat) list \<times> styleIssue list) \<times> bool" where
  "styleLoop [] acc = (acc, True)"
| "styleLoop (i # rest) (cs, stored) =
     (let cs1 = AList.update (pl_type i)
                  ((case map_of cs (pl_type i) of Some n \<Rightarrow> n | None \<Rightarrow> 0) + 1) cs
      in if length stored < 10 \<and> (pl_type i = ''error'' \<or> pl_type i = ''warning'')
         then (case pl_path i of
                 None \<Rightarrow> ((cs1, stored), False)
               | Some p \<Rightarrow>
                   styleLoop rest
                     (cs1, stored @ [\<lparr>si_type = pl_type i, si_message = pl_message i,
                        si_file = basename p, si_line = pl_line i, si_symbol = pl_symbol i\<rparr>]))
         else styleLoop rest (cs1, stored))"

definition countOf :: "(string \<times> nat) list \<Rightarrow> string \<Rightarrow> rat" where
  "countOf cs k = of_nat (case map_of cs k of Some n \<Rightarrow> n | None \<Rightarrow> 0)"

text \<open>
  \<^verbatim>\<open>analyzeStyle\<close>. The parser of pylint's report is a parameter: \<open>None\<close> when
  \<^verbatim>\<open>JSON.parse\<close> throws or the value cannot be iterated. The rejection of
  \<^verbatim>\<open>execAsync\<close> is turned by the handler chained to it into the standard output
  \<^verbatim>\<open>e.stdout || '[]'\<close>, so that no outcome of the command reaches the outer
  \<^verbatim>\<open>catch\<close> of the source ("Default score", 70, \<^verbatim>\<open>'Style analysis limited'\<close>);
  only a call that throws before the handler is attached does.
\<close>

definition analyzeStyle ::
  "(string \<Rightarrow> pylintIssue list option) \<Rightarrow> execOutcome \<Rightarrow> style \<Rightarrow> style" where
  "analyzeStyle parsePylint outcome st =
     (if outcome = Threw
      then st\<lparr>style.score := 70, style.error := Some ''Style analysis limited''\<rparr>
      else
      let stdout = (case outcome of
                      Resolved out err \<Rightarrow> out
                    | Rejected eout eerr \<Rightarrow>
                        (case eout of None \<Rightarrow> ''[]'' | Some out \<Rightarrow> if out = [] then ''[]'' else out)
                    | Threw \<Rightarrow> [])
      in if stdout \<noteq> [] \<and> trim stdout \<noteq> [] \<and> trim stdout \<noteq> ''[]''
         then (case parsePylint stdout of
                 None \<Rightarrow> st\<lparr>style.score := 70\<rparr>
               | Some parsed \<Rightarrow>
                   (case styleLoop parsed
                           ([(''error'', 0), (''warning'', 0), (''convention'', 0), (''refactor'', 0)],
                            style.issues st) of
                      ((cs, stored), False) \<Rightarrow> st\<lparr>style.issues := stored, style.score := 70\<rparr>
                    | ((cs, stored), True) \<Rightarrow>
                        (let s1 = js_sub 100 (js_mul (countOf cs ''error'') 5);
                             s2 = js_sub s1 (js_mul (countOf cs ''warning'') 2);
                             s3 = js_sub s2 (js_mul (countOf cs ''convention'') (js_lit (1 / 2)));
                             s4 = js_sub s3 (js_mul (countOf cs ''refactor'') 1)
                         in st\<lparr>style.issues := stored,
                               style.score := max 0 (min 100 (js_round s4)),
                               counts := Some cs\<rparr>)))
         else st\<lparr>style.score := 85\<rparr>)"

section \<open>Aggregation into the report (ingestion.js)\<close>

record projectMetrics =
  hasReadme :: bool
  readmeQuality :: int
  hasLicense :: bool
  hasTests :: bool
  hasCI :: bool
  hasDocker :: bool
  hasPackageManager :: bool
  hasDocs :: bool
  structureScore :: int
  score :: int

record report =
  repoUrl :: string
  analyzedAt :: string
  overallScore :: int
  grade :: string
  summary :: string
  languages :: languageStats
  projectMetrics :: projectMetrics
  codeAnalysis :: codeAnalysis
  strengths :: "string list"
  improvements :: "string list"

definition scoreToGrade :: "int \<Rightarrow> string" where
  "scoreToGrade s =
     (if 90 \<le> s then ''A+''
      else if 85 \<le> s then ''A''
      else if 80 \<le> s then ''A-''
      else if 75 \<le> s then ''B+''
      else if 70 \<le> s then ''B''
      else if 65 \<le> s then ''B-''
      else if 60 \<le> s then ''C+''
      else if 55 \<le> s then ''C''
      else if 50 \<le> s then ''C-''
      else if 40 \<le> s then ''D''
      else ''F'')"

definition generateSummary :: "int \<Rightarrow> projectMetrics \<Rightarrow> codeAnalysis \<Rightarrow> string" where
  "generateSummary s pm ca =
     (let s0 = (if 80 \<le> s then ''This repository demonstrates strong software engineering practices. ''
                else if 60 \<le> s then ''This repository shows competent development skills with room for improvement. ''
                else if 40 \<le> s then ''This repository meets basic standards but needs significant improvements. ''
                else ''This repository requires substantial work to meet professional standards. '');
          s1 = (if hasTests pm then s0 @ ''Test coverage is present. '' else s0);
          s2 = (if hasReadme pm \<and> 70 \<le> readmeQuality pm
                then s1 @ ''Documentation is well-maintained. '' else s1);
          s3 = (if 75 \<le> codeAnalysis.overallScore ca then s2 @ ''Code quality is above average.'' else s2)
      in trim s3)"

definition identifyStrengths :: "projectMetrics \<Rightarrow> codeAnalysis \<Rightarrow> string list" where
  "identifyStrengths pm ca =
     (let found =
            (if 80 \<le> readmeQuality pm then [''Excellent documentation''] else []) @
            (if hasTests pm then [''Includes test suite''] else []) @
            (if hasCI pm then [''CI/CD configured''] else []) @
            (if hasLicense pm then [''Properly licensed''] else []) @
            (if 80 \<le> structureScore pm then [''Well-organized file structure''] else []) @
            (if 80 \<le> codeAnalysis.overallScore ca then [''High code quality''] else []) @
            concat (map (\<lambda>(lang, analysis).
                      if 85 \<le> analysisResult.score analysis
                      then [''Strong '' @ lang @ '' implementation''] else [])
                    (byLanguage ca))
      in if found \<noteq> [] then found else [''Repository analyzed successfully''])"

definition identifyImprovements :: "projectMetrics \<Rightarrow> codeAnalysis \<Rightarrow> string list" where
  "identifyImprovements pm ca =
     take 5
       ((if \<not> hasReadme pm then [''Add a README file'']
         else if readmeQuality pm < 50 then [''Improve README documentation''] else []) @
        (if \<not> hasTests pm then [''Add unit tests''] else []) @
        (if \<not> hasLicense pm then [''Add a license file''] else []) @
        (if \<not> hasCI pm then [''Set up CI/CD pipeline''] else []) @
        (if structureScore pm < 50 then [''Improve project organization''] else []) @
        concat (map (\<lambda>(lang, analysis).
                  (case complexityAverage analysis of
                     Some a \<Rightarrow> if 15 < a then [''Reduce complexity in '' @ lang @ '' code''] else []
                   | None \<Rightarrow> []) @
                  (case issuesLength analysis of
                     Some n \<Rightarrow> if 5 < n then [''Address code quality issues in '' @ lang] else []
                   | None \<Rightarrow> []))
                (byLanguage ca)))"

text \<open>\<^verbatim>\<open>compileReport\<close>; \<open>now\<close> is \<^verbatim>\<open>new Date().toISOString()\<close>.\<close>

definition compileReport ::
  "string \<Rightarrow> string \<Rightarrow> languageStats \<Rightarrow> projectMetrics \<Rightarrow> codeAnalysis \<Rightarrow> report" where
  "compileReport url now languageStats pm ca =
     (let projectScore = projectMetrics.score pm;
          codeScore = codeAnalysis.overallScore ca;
          total = js_round (js_add (js_mul (of_int projectScore) (js_lit (4 / 10)))
                                   (js_mul (of_int codeScore) (js_lit (6 / 10))))
      in \<lparr>repoUrl = url,
          analyzedAt = now,
          report.overallScore = total,
          grade = scoreToGrade total,
          summary = generateSummary total pm ca,
          languages = languageStats,
          projectMetrics = pm,
          codeAnalysis = ca,
          strengths = identifyStrengths pm ca,
          improvements = identifyImprovements pm ca\<rparr>)"

text \<open>
  \<^verbatim>\<open>analyzeRepo\<close>. The parameters are what its input and output steps give: \<open>clone\<close>
  is the listing of the cloned directory, or \<open>Inl\<close> the error of \<^verbatim>\<open>git.clone\<close>;
  \<open>project\<close> is what \<^verbatim>\<open>analyzeProject\<close> returns, or \<open>Inl\<close> the error it throws;
  \<open>run\<close> is as in \<open>runAnalyzers\<close>. An error of any step rejects the call; the cleanup
  in \<^verbatim>\<open>finally\<close> swallows its own errors and changes no result.
\<close>

definition analyzeRepo ::
  "string \<Rightarrow> string \<Rightarrow> string + entry list \<Rightarrow> string + projectMetrics
    \<Rightarrow> (analyzer \<Rightarrow> string + analysisResult) \<Rightarrow> string + report" where
  "analyzeRepo url now clone project run =
     (case clone of
        Inl err \<Rightarrow> Inl err
      | Inr entries \<Rightarrow>
          (case detectLanguages (Some entries) of
             Inl err \<Rightarrow> Inl err
           | Inr languageStats \<Rightarrow>
               (case project of
                  Inl err \<Rightarrow> Inl err
                | Inr pm \<Rightarrow>
                    Inr (compileReport url now languageStats pm (runAnalyzers run languageStats)))))"

section \<open>Reference notions of the specification\<close>

text \<open>The eleven grades, worst first; the rank of a grade is its position.\<close>

definition GRADES :: "string list" where
  "GRADES = [''F'', ''D'', ''C-'', ''C'', ''C+'', ''B-'', ''B'', ''B+'', ''A-'', ''A'', ''A+'']"

definition gradeRank :: "string \<Rightarrow> nat" where
  "gradeRank g = length (takeWhile (\<lambda>x. x \<noteq> g) GRADES)"

text \<open>The labels of a sequence in the order of their first occurrence.\<close>

fun firstSeen :: "string list \<Rightarrow> string list \<Rightarrow> string list" where
  "firstSeen seen [] = seen"
| "firstSeen seen (l # ls) = (if l \<in> set seen then firstSeen seen ls else firstSeen (seen @ [l]) ls)"

text \<open>The label the callback of \<^verbatim>\<open>detectLanguages\<close> gives a visited file.\<close>

definition labelOf :: "visited \<Rightarrow> string option" where
  "labelOf v = map_of EXTENSION_MAP (toLowerCase (extname (fst v)))"

text \<open>The languages whose analyzer ran and returned, with their weights and scores.\<close>

fun succeeded :: "(analyzer \<Rightarrow> string + analysisResult) \<Rightarrow> (string \<times> languageStat) list
    \<Rightarrow> (string \<times> int \<times> int) list" where
  "succeeded run [] = []"
| "succeeded run ((lang, d) # rest) =
     (case map_of ANALYZERS lang of
        Some (Some a) \<Rightarrow>
          (case run a of
             Inr analysis \<Rightarrow> (lang, percentage d, analysisResult.score analysis) # succeeded run rest
           | Inl msg \<Rightarrow> succeeded run rest)
      | _ \<Rightarrow> succeeded run rest)"

text \<open>The total weight and the weighted total of such a list, and the result the router
  stores for a language whose analyzer threw.\<close>

definition sumWeights :: "(string \<times> int \<times> int) list \<Rightarrow> int" where
  "sumWeights S = sum_list (map (\<lambda>(l, w, s). w) S)"

definition sumWeighted :: "(string \<times> int \<times> int) list \<Rightarrow> int" where
  "sumWeighted S = sum_list (map (\<lambda>(l, w, s). s * w) S)"

definition degraded :: "string \<Rightarrow> analysisResult" where
  "degraded msg = \<lparr>analysisResult.score = 50, complexityAverage = None, issuesLength = None,
     error = Some msg\<rparr>"

section \<open>Example inputs\<close>

text \<open>Python at 70 percent scoring 80 and JavaScript at 30 percent scoring 60; the same
  repository when the Python analyzer throws; a repository of Ruby files only.\<close>

definition exampleStats :: languageStats where
  "exampleStats =
     \<lparr>primary = Some ''Python'',
      breakdown = [(''Python'', \<lparr>ls_files = 7, ls_lines = 700, ls_bytes = 21000, percentage = 70\<rparr>),
                   (''JavaScript'', \<lparr>ls_files = 3, ls_lines = 300, ls_bytes = 9000, percentage = 30\<rparr>)],
      totalFiles = 10, totalLines = 1000\<rparr>"

definition exampleRun :: "analyzer \<Rightarrow> string + analysisResult" where
  "exampleRun a =
     (case a of
        analyzePython \<Rightarrow> Inr \<lparr>analysisResult.score = 80, complexityAverage = Some 3,
                               issuesLength = Some 0, error = None\<rparr>
      | analyzeJavaScript \<Rightarrow> Inr \<lparr>analysisResult.score = 60, complexityAverage = Some 7,
                                   issuesLength = Some 2, error = None\<rparr>
      | analyzeCpp \<Rightarrow> Inl ''ENOENT'')"

definition failingRun :: "analyzer \<Rightarrow> string + analysisResult" where
  "failingRun a =
     (case a of
        analyzePython \<Rightarrow> Inl ''spawn python ENOENT''
      | analyzeJavaScript \<Rightarrow> Inr \<lparr>analysisResult.score = 60, complexityAverage = Some 7,
                                   issuesLength = Some 2, error = None\<rparr>
      | analyzeCpp \<Rightarrow> Inl ''ENOENT'')"

definition rubyStats :: languageStats where
  "rubyStats =
     \<lparr>primary = Some ''Ruby'',
      breakdown = [(''Ruby'', \<lparr>ls_files = 2, ls_lines = 40, ls_bytes = 900, percentage = 100\<rparr>)],
      totalFiles = 2, totalLines = 40\<rparr>"

section \<open>Reference notions for language detection\<close>

text \<open>The greatest line count of the entries of \<open>stats\<close>; the lines a visited file adds
  to its language; the total of a label over the files of a walk; and the line count
  \<open>stats\<close> holds for a label.\<close>

fun maxLines :: "stats \<Rightarrow> nat" where
  "maxLines [] = 0"
| "maxLines (e # es) = max (lines (snd e)) (maxLines es)"

definition fileLines :: "visited \<Rightarrow> nat" where
  "fileLines v = (case snd v of Some (content, nbytes) \<Rightarrow> splitLinesLength content | None \<Rightarrow> 0)"

definition linesOfLabel :: "string \<Rightarrow> visited list \<Rightarrow> nat" where
  "linesOfLabel l vs = sum_list (map fileLines (filter (\<lambda>v. labelOf v = Some l) vs))"

definition linesIn :: "stats \<Rightarrow> string \<Rightarrow> nat" where
  "linesIn st l = (case map_of st l of Some d \<Rightarrow> lines d | None \<Rightarrow> 0)"

section \<open>Rounding to binary64: error bounds\<close>

text \<open>
  The relative error of \<open>fl\<close> in the normal range is at most \<open>2 powi - 53\<close>, and
  half-integers below \<open>2 ^ 52\<close> are binary64 values. From these, the two roundings the
  program relies on are exact on its integer data: \<^verbatim>\<open>Math.round(a / b)\<close>, and
  \<^verbatim>\<open>Math.round(p * 0.4 + c * 0.6)\<close>.
\<close>

lemma rne_err: "\<bar>of_int (rne q) - q\<bar> \<le> 1 / 2"
proof -
  have "of_int \<lfloor>q\<rfloor> \<le> q" "q < of_int \<lfloor>q\<rfloor> + 1" by linarith+
  then show ?thesis
    unfolding rne_def Let_def by (auto simp: abs_le_iff)
qed

lemma rne_of_int: "rne (of_int n) = n"
  by (simp add: rne_def)

lemma powi2_pos: "(0::rat) < 2 powi k"
  by (simp add: zero_less_power_int)

lemma powi2_less_D: "(2::rat) powi a < 2 powi b \<Longrightarrow> a < b"
proof (rule ccontr)
  assume l: "(2::rat) powi a < 2 powi b" and "\<not> a < b"
  then have "b \<le> a" by simp
  then have "(2::rat) powi b \<le> 2 powi a" by (rule power_int_increasing) simp
  with l show False by simp
qed

lemma expo_bounds:
  assumes "x \<noteq> 0"
  shows "2 powi expo x \<le> \<bar>x\<bar>" and "\<bar>x\<bar> < 2 powi (expo x + 1)"
proof -
  obtain a b where ab: "quotient_of \<bar>x\<bar> = (a, b)" by (cases "quotient_of \<bar>x\<bar>")
  have b: "0 < b" using ab quotient_of_denom_pos by blast
  have x: "\<bar>x\<bar> = of_int a / of_int b" using ab quotient_of_div by blast
  have a: "0 < a"
  proof -
    have "0 < \<bar>x\<bar>" using assms by simp
    then show ?thesis using b x by (simp add: zero_less_divide_iff)
  qed
  define la lb where "la = bitlen a" and "lb = bitlen b"
  have la: "2 ^ nat (la - 1) \<le> a" "a < 2 ^ nat la" using bitlen_bounds[OF a] by (simp_all add: la_def)
  have lb: "2 ^ nat (lb - 1) \<le> b" "b < 2 ^ nat lb" using bitlen_bounds[OF b] by (simp_all add: lb_def)
  have la1: "1 \<le> la" using a bitlen_eq_zero_iff[of a] bitlen_nonneg[of a] by (simp add: la_def) 
  have lb1: "1 \<le> lb" using b bitlen_eq_zero_iff[of b] bitlen_nonneg[of b] by (simp add: lb_def)
  have e: "expo x = (if 2 powi (la - lb) \<le> \<bar>x\<bar> then la - lb else la - lb - 1)"
    by (simp add: expo_def ab la_def lb_def Let_def)
  have pa: "(2::rat) powi (la - 1) \<le> of_int a" "of_int a < (2::rat) powi la"
  proof -
    have "(2::rat) powi (la - 1) = of_int (2 ^ nat (la - 1))"
      using la1 by (simp add: power_int_nonneg_exp)
    then show "(2::rat) powi (la - 1) \<le> of_int a" using la(1) by (metis of_int_le_iff)
    have "(2::rat) powi la = of_int (2 ^ nat la)"
      using la1 by (simp add: power_int_nonneg_exp)
    then show "of_int a < (2::rat) powi la" using la(2) by (metis of_int_less_iff)
  qed
  have pb: "(2::rat) powi (lb - 1) \<le> of_int b" "of_int b < (2::rat) powi lb"
  proof -
    have "(2::rat) powi (lb - 1) = of_int (2 ^ nat (lb - 1))"
      using lb1 by (simp add: power_int_nonneg_exp)
    then show "(2::rat) powi (lb - 1) \<le> of_int b" using lb(1) by (metis of_int_le_iff)
    have "(2::rat) powi lb = of_int (2 ^ nat lb)"
      using lb1 by (simp add: power_int_nonneg_exp)
    then show "of_int b < (2::rat) powi lb" using lb(2) by (metis of_int_less_iff)
  qed
  have pos: "\<And>k. (0::rat) < 2 powi k" by (simp add: zero_less_power_int)
  have up: "\<bar>x\<bar> < 2 powi (la - lb + 1)"
  proof -
    have "of_int a / of_int b < (2::rat) powi la / 2 powi (lb - 1)"
      using frac_less[where x = "of_int a" and y = "(2::rat) powi la" and w = "2 powi (lb - 1)" and z = "of_int b"] pa pb a powi2_pos
      by (simp add: less_imp_le)
    also have "\<dots> = 2 powi (la - (lb - 1))" by (simp add: power_int_diff)
    finally show ?thesis by (simp add: x algebra_simps)
  qed
  have low: "2 powi (la - lb - 1) \<le> \<bar>x\<bar>"
  proof -
    have "(2::rat) powi (la - 1) / 2 powi lb \<le> of_int a / of_int b"
      using frac_le[where x = "(2::rat) powi (la - 1)" and y = "of_int a" and w = "of_int b" and z = "2 powi lb"] pa pb a b
      by (simp add: less_imp_le)
    moreover have "(2::rat) powi (la - 1) / 2 powi lb = 2 powi (la - 1 - lb)" by (simp add: power_int_diff)
    ultimately show ?thesis by (simp add: x algebra_simps)
  qed
  show "2 powi expo x \<le> \<bar>x\<bar>" using low by (simp add: e)
  show "\<bar>x\<bar> < 2 powi (expo x + 1)" using up by (auto simp add: e not_le)
qed

lemma fl_err:
  assumes "2 powi (- 1022) \<le> \<bar>x\<bar>"
  shows "\<bar>fl x - x\<bar> \<le> \<bar>x\<bar> / 2 ^ 53"
proof -
  have pos: "\<And>k. (0::rat) < 2 powi k" by (simp add: zero_less_power_int)
  have x0: "x \<noteq> 0" using assms pos[of "- 1022"] by auto
  define e where "e = expo x"
  have eb: "2 powi e \<le> \<bar>x\<bar>" "\<bar>x\<bar> < 2 powi (e + 1)"
    using expo_bounds[OF x0] by (simp_all add: e_def)
  have "(2::rat) powi (- 1022) < 2 powi (e + 1)" using assms eb(2) by (rule le_less_trans)
  then have "- 1022 < e + 1" by (rule powi2_less_D)
  then have em: "max e (- 1022) = e" by simp
  define u :: rat where "u = 2 powi (e - 52)"
  have u: "0 < u" by (simp add: u_def pos)
  have f: "fl x = of_int (rne (x / u)) * u"
    using x0 em by (simp add: fl_def Let_def e_def[symmetric] u_def)
  have "fl x - x = (of_int (rne (x / u)) - x / u) * u"
    using u by (simp add: f algebra_simps)
  then have "\<bar>fl x - x\<bar> = \<bar>of_int (rne (x / u)) - x / u\<bar> * u"
    using u by (simp add: abs_mult)
  also have "\<dots> \<le> 1 / 2 * u" using rne_err[of "x / u"] u by (simp add: mult_right_mono less_imp_le)
  also have "\<dots> = 2 powi e / 2 ^ 53" by (simp add: u_def power_int_diff)
  also have "\<dots> \<le> \<bar>x\<bar> / 2 ^ 53" using eb(1) by (simp add: divide_right_mono)
  finally show ?thesis .
qed

lemma fl_exact:
  assumes "1 / 2 \<le> \<bar>x\<bar>" "\<bar>x\<bar> < 2 ^ 52" "x = of_int m / 2"
  shows "fl x = x"
proof -
  have pos: "\<And>k. (0::rat) < 2 powi k" by (simp add: zero_less_power_int)
  have x0: "x \<noteq> 0" using assms by auto
  define e where "e = expo x"
  have eb: "2 powi e \<le> \<bar>x\<bar>" "\<bar>x\<bar> < 2 powi (e + 1)"
    using expo_bounds[OF x0] by (simp_all add: e_def)
  have "(2::rat) powi (- 1) = 1 / 2" by (simp add: power_int_minus)
  then have "(2::rat) powi (- 1) < 2 powi (e + 1)" using assms(1) eb(2) by linarith
  then have "- 1 < e + 1" by (rule powi2_less_D)
  then have e1: "- 1 \<le> e" by simp
  have "(2::rat) powi 52 = 2 ^ 52" by simp
  then have "(2::rat) powi e < 2 powi 52" using assms(2) eb(1) by linarith
  then have "e < 52" by (rule powi2_less_D)
  then have e2: "e \<le> 51" by simp
  have em: "max e (- 1022) = e" using e1 by simp
  define u :: rat where "u = 2 powi (e - 52)"
  have u: "0 < u" by (simp add: u_def pos)
  have f: "fl x = of_int (rne (x / u)) * u"
    using x0 em by (simp add: fl_def Let_def e_def[symmetric] u_def)
  have "x / u = of_int m * 2 powi (51 - e)"
    by (simp add: assms(3) u_def power_int_diff)
  also have "\<dots> = of_int (m * 2 ^ nat (51 - e))" using e2 by (simp add: power_int_nonneg_exp)
  finally have xu: "x / u = of_int (m * 2 ^ nat (51 - e))" .
  then have "rne (x / u) = m * 2 ^ nat (51 - e)" by (simp only: rne_of_int)
  then have "of_int (rne (x / u)) = x / u" using xu by simp
  then show ?thesis using u by (simp add: f)
qed

lemma fl_zero: "fl 0 = 0"
  by (simp add: fl_def)

lemma powi2_m1022_le: "(2::rat) powi (- 1022) \<le> 1 / 2 ^ 52"
proof -
  have "(2::rat) powi (- 1022) \<le> 2 powi (- 52)" by (rule power_int_increasing) simp_all
  also have "\<dots> = 1 / 2 ^ 52" by (simp add: power_int_minus_divide)
  finally show ?thesis .
qed

lemma fl_err_normal:
  assumes "1 / 2 ^ 52 \<le> \<bar>x\<bar>"
  shows "\<bar>fl x - x\<bar> \<le> \<bar>x\<bar> / 2 ^ 53"
  using fl_err[of x] powi2_m1022_le assms by linarith

lemma js_round_fl_div:
  fixes a b :: int
  assumes b: "0 < b" "b < 2 ^ 52" and a: "\<bar>a\<bar> < 2 ^ 52"
  shows "js_round (fl (of_int a / of_int b)) = \<lfloor>(of_int a / of_int b :: rat) + 1 / 2\<rfloor>"
proof (cases "a = 0")
  case True
  then show ?thesis by (simp add: fl_zero js_round_def)
next
  case False
  define q :: rat where "q = of_int a / of_int b"
  define k where "k = \<lfloor>q + 1 / 2\<rfloor>"
  have bq: "(0::rat) < of_int b" using b by simp
  have qa: "\<bar>q\<bar> = of_int \<bar>a\<bar> / of_int b" using b by (simp add: q_def)
  have a1: "(1::rat) \<le> of_int \<bar>a\<bar>"
  proof -
    have "1 \<le> \<bar>a\<bar>" using False by simp
    then show ?thesis by (simp only: of_int_1_le_iff)
  qed
  have blt: "(of_int b :: rat) < 2 ^ 52" using b(2) by (metis of_int_less_iff of_int_numeral of_int_power)
  have alt: "(of_int \<bar>a\<bar> :: rat) < 2 ^ 52" using a by (metis of_int_less_iff of_int_numeral of_int_power)
  have qlow: "1 / of_int b \<le> \<bar>q\<bar>" using a1 bq by (simp add: qa divide_right_mono)
  have "1 / 2 ^ 52 \<le> (1::rat) / of_int b" using blt bq by (simp add: frac_le)
  then have "1 / 2 ^ 52 \<le> \<bar>q\<bar>" using qlow by linarith
  then have err: "\<bar>fl q - q\<bar> \<le> \<bar>q\<bar> / 2 ^ 53" by (rule fl_err_normal)
  have qup: "\<bar>q\<bar> < 2 ^ 52"
  proof -
    have "of_int \<bar>a\<bar> / of_int b \<le> (of_int \<bar>a\<bar> :: rat) / 1"
      using b by (intro divide_left_mono) simp_all
    then show ?thesis using alt qa by simp
  qed
  show ?thesis
  proof (cases "b dvd 2 * a")
    case True
    then obtain m where m: "2 * a = b * m" by (auto simp: dvd_def)
    have "q = of_int m / 2"
    proof -
      have "(of_int (2 * a) :: rat) = of_int (b * m)" using m by simp
      then show ?thesis using bq by (simp add: q_def field_simps)
    qed
    moreover have "1 / 2 \<le> \<bar>q\<bar>"
    proof -
      have "m \<noteq> 0" using m False by auto
      then have "1 \<le> \<bar>m\<bar>" by simp
      then have "(1::rat) \<le> of_int \<bar>m\<bar>" by (simp only: of_int_1_le_iff)
      then have "(1::rat) \<le> \<bar>of_int m\<bar>" by simp
      then show ?thesis by (simp add: \<open>q = of_int m / 2\<close>)
    qed
    ultimately have "fl q = q" using fl_exact[of q m] qup by simp
    then show ?thesis by (simp add: js_round_def q_def)
  next
    case False
    have k1: "of_int k \<le> q + 1 / 2" and k2: "q + 1 / 2 < of_int k + 1"
      by (simp_all add: k_def) linarith+
    have i1: "(2 * k - 1) * b \<le> 2 * a"
    proof -
      have "of_int ((2 * k - 1) * b) \<le> (of_int (2 * a) :: rat)"
        using k1 bq by (simp add: q_def field_simps)
      then show ?thesis by (simp only: of_int_le_iff)
    qed
    have i2: "2 * a < (2 * k + 1) * b"
    proof -
      have "(of_int (2 * a) :: rat) < of_int ((2 * k + 1) * b)"
        using k2 bq by (simp add: q_def field_simps)
      then show ?thesis by (simp only: of_int_less_iff)
    qed
    have "(2 * k - 1) * b \<noteq> 2 * a" using False by (metis dvd_triv_right)
    then have j1: "(2 * k - 1) * b + 1 \<le> 2 * a" using i1 by simp
    have g1: "of_int k - 1 / 2 + 1 / (2 * of_int b) \<le> q"
    proof -
      define d where "d = 2 * a - (2 * k - 1) * b"
      have "1 \<le> d" using j1 by (simp add: d_def)
      then have "(1::rat) \<le> of_int d" by (simp only: of_int_1_le_iff)
      then have "(1::rat) / (2 * of_int b) \<le> of_int d / (2 * of_int b)"
        using bq by (simp add: divide_right_mono)
      moreover have "q = of_int k - 1 / 2 + of_int d / (2 * of_int b)"
        using bq by (simp add: q_def d_def field_simps)
      ultimately show ?thesis by linarith
    qed
    have g2: "q \<le> of_int k + 1 / 2 - 1 / (2 * of_int b)"
    proof -
      define d where "d = (2 * k + 1) * b - 2 * a"
      have "1 \<le> d" using i2 by (simp add: d_def)
      then have "(1::rat) \<le> of_int d" by (simp only: of_int_1_le_iff)
      then have "(1::rat) / (2 * of_int b) \<le> of_int d / (2 * of_int b)"
        using bq by (simp add: divide_right_mono)
      moreover have "q = of_int k + 1 / 2 - of_int d / (2 * of_int b)"
        using bq by (simp add: q_def d_def field_simps)
      ultimately show ?thesis by linarith
    qed
    have e2: "\<bar>q\<bar> / 2 ^ 53 < 1 / (2 * of_int b)"
    proof -
      have "(of_int \<bar>a\<bar> :: rat) / 2 ^ 53 < 1 / 2" using alt by simp
      then have "(of_int \<bar>a\<bar> :: rat) / 2 ^ 53 / of_int b < 1 / 2 / of_int b"
        using bq by (rule divide_strict_right_mono)
      moreover have "\<bar>q\<bar> / 2 ^ 53 = (of_int \<bar>a\<bar> :: rat) / 2 ^ 53 / of_int b"
        by (simp only: qa divide_divide_eq_left mult.commute)
      moreover have "(1::rat) / 2 / of_int b = 1 / (2 * of_int b)" by simp
      ultimately show ?thesis by simp
    qed
    have "of_int k \<le> fl q + 1 / 2" "fl q + 1 / 2 < of_int k + 1"
      using err e2 g1 g2 by linarith+
    then have "\<lfloor>fl q + 1 / 2\<rfloor> = k" by (simp add: floor_unique)
    then show ?thesis by (simp add: js_round_def q_def k_def)
  qed
qed

lemma fl_scaled:
  fixes n :: int and k w :: rat
  assumes n: "0 \<le> n" "n \<le> 100" and k: "\<bar>k - w\<bar> \<le> 1 / 2 ^ 53" and w: "1 / 4 \<le> w" "w \<le> 3 / 4"
  shows "\<bar>fl (of_int n * k) - of_int n * w\<bar> \<le> 176 / 2 ^ 53"
proof (cases "n = 0")
  case True
  then show ?thesis by (simp add: fl_zero)
next
  case False
  then have "1 \<le> n" using n by simp
  then have n1: "(1::rat) \<le> of_int n" by (simp only: of_int_1_le_iff)
  have "(of_int n :: rat) \<le> of_int 100" using n(2) by (simp only: of_int_le_iff)
  then have n100: "(of_int n :: rat) \<le> 100" by simp
  have kb: "1 / 4 - 1 / 2 ^ 53 \<le> k" "k \<le> 3 / 4 + 1 / 2 ^ 53" using k w by linarith+
  have kpos: "0 \<le> k" using kb(1) by simp
  define x where "x = of_int n * k"
  have xl: "k \<le> x" using n1 kpos mult_right_mono[of 1 "of_int n" k] by (simp add: x_def)
  have xu: "x \<le> 100 * k" using n100 kpos by (simp add: x_def mult_right_mono)
  have x0: "0 \<le> x" using xl kpos by simp
  have "1 / 2 ^ 52 \<le> \<bar>x\<bar>" using xl kb(1) by simp
  then have "\<bar>fl x - x\<bar> \<le> \<bar>x\<bar> / 2 ^ 53" by (rule fl_err_normal)
  moreover have "\<bar>x\<bar> / 2 ^ 53 \<le> 76 / 2 ^ 53" using xu kb(2) x0 by simp
  ultimately have e1: "\<bar>fl x - x\<bar> \<le> 76 / 2 ^ 53" by linarith
  have "\<bar>x - of_int n * w\<bar> = of_int n * \<bar>k - w\<bar>"
    using n1 by (simp add: x_def right_diff_distrib[symmetric] abs_mult)
  also have "\<dots> \<le> 100 * (1 / 2 ^ 53)"
    using n100 n1 k by (intro mult_mono) simp_all
  finally have e2: "\<bar>x - of_int n * w\<bar> \<le> 100 / 2 ^ 53" by simp
  show ?thesis using e1 e2 unfolding x_def by linarith
qed

lemma fl_two_fifths: "\<bar>fl (2 / 5) - 2 / 5\<bar> \<le> 1 / 2 ^ 53"
  using fl_err_normal[of "2 / 5"] by simp

lemma fl_three_fifths: "\<bar>fl (3 / 5) - 3 / 5\<bar> \<le> 1 / 2 ^ 53"
  using fl_err_normal[of "3 / 5"] by simp

lemma weighted_score_exact:
  fixes p c :: int
  assumes p: "0 \<le> p" "p \<le> 100" and c: "0 \<le> c" "c \<le> 100"
  shows "js_round (fl (fl (of_int p * fl (2 / 5)) + fl (of_int c * fl (3 / 5))))
     = \<lfloor>(of_int p * (2 / 5) + of_int c * (3 / 5) :: rat) + 1 / 2\<rfloor>"
proof -
  define t1 where "t1 = fl (of_int p * fl (2 / 5))"
  define t2 where "t2 = fl (of_int c * fl (3 / 5))"
  define v :: rat where "v = of_int p * (2 / 5) + of_int c * (3 / 5)"
  define m where "m = 4 * p + 6 * c + 5"
  define k where "k = m div 10"
  have d1: "\<bar>t1 - of_int p * (2 / 5)\<bar> \<le> 176 / 2 ^ 53"
    unfolding t1_def by (rule fl_scaled[OF p fl_two_fifths]) simp_all
  have d2: "\<bar>t2 - of_int c * (3 / 5)\<bar> \<le> 176 / 2 ^ 53"
    unfolding t2_def by (rule fl_scaled[OF c fl_three_fifths]) simp_all
  have vm: "v + 1 / 2 = of_int m / 10" by (simp add: v_def m_def)
  have "m mod 10 \<noteq> 0" unfolding m_def by presburger
  have r: "1 \<le> m mod 10" "m mod 10 \<le> 9" unfolding m_def by presburger+
  have "m = 10 * k + m mod 10" by (simp add: k_def)
  then have "(of_int m :: rat) = of_int (10 * k + m mod 10)" by simp
  then have mk: "(of_int m :: rat) / 10 = of_int k + of_int (m mod 10) / 10" by simp
  have "(of_int 1 :: rat) \<le> of_int (m mod 10)" "(of_int (m mod 10) :: rat) \<le> of_int 9"
    using r by (simp_all only: of_int_le_iff)
  then have vk: "of_int k + 1 / 10 \<le> v + 1 / 2" "v + 1 / 2 \<le> of_int k + 9 / 10"
    using vm mk by simp_all
  have kv: "k = \<lfloor>v + 1 / 2\<rfloor>"
    using vk by (intro floor_unique[symmetric]) linarith+
  show ?thesis
  proof (cases "p = 0 \<and> c = 0")
    case True
    then show ?thesis by (simp add: fl_zero js_round_def)
  next
    case False
    then have "1 \<le> p \<or> 1 \<le> c" using p c by auto
    then have "(of_int 1 :: rat) \<le> of_int p \<or> (of_int 1 :: rat) \<le> of_int c" by (simp only: of_int_le_iff)
    moreover have "(0::rat) \<le> of_int p" "(0::rat) \<le> of_int c" using p c by simp_all
    ultimately have vl: "2 / 5 \<le> v" unfolding v_def by auto
    have "(of_int p :: rat) \<le> of_int 100" "(of_int c :: rat) \<le> of_int 100" using p c by (simp_all only: of_int_le_iff)
    then have vu: "v \<le> 100" unfolding v_def by simp
    define y where "y = t1 + t2"
    have dy: "\<bar>y - v\<bar> \<le> 352 / 2 ^ 53" using d1 d2 unfolding y_def v_def by linarith
    have "(352::rat) / 2 ^ 53 \<le> 1 / 100" by simp
    then have "\<bar>y - v\<bar> \<le> 1 / 100" using dy by linarith
    then have yl: "1 / 4 \<le> y" "y \<le> 101" using vl vu by linarith+
    then have "1 / 2 ^ 52 \<le> \<bar>y\<bar>" by simp
    then have "\<bar>fl y - y\<bar> \<le> \<bar>y\<bar> / 2 ^ 53" by (rule fl_err_normal)
    moreover have "\<bar>y\<bar> / 2 ^ 53 \<le> 101 / 2 ^ 53" using yl by simp
    ultimately have "\<bar>fl y - v\<bar> \<le> 453 / 2 ^ 53" using dy by linarith
    then have "\<bar>fl y - v\<bar> < 1 / 10" by simp
    then have "of_int k \<le> fl y + 1 / 2" "fl y + 1 / 2 < of_int k + 1" using vk by linarith+
    then have "\<lfloor>fl y + 1 / 2\<rfloor> = k" by (simp add: floor_unique)
    then show ?thesis using kv by (simp add: js_round_def y_def t1_def t2_def v_def)
  qed
qed

text \<open>
  The model against known binary64 values: the literals \<^verbatim>\<open>0.1\<close> and \<^verbatim>\<open>0.4\<close>, the
  sum \<^verbatim>\<open>0.1 + 0.2\<close> (0.30000000000000004), the quotient \<^verbatim>\<open>1 / 3\<close>, and a percentage
  of \<open>detectLanguages\<close> where the rounding matters: 29 lines of 200 give
  \<^verbatim>\<open>(29 / 200) * 100\<close> = 14.499999999999998 and so 14 percent, not 15.
\<close>

lemma fl_known_values:
  "js_lit (1 / 10) = 3602879701896397 / 2 ^ 55"
  "js_lit (4 / 10) = 7205759403792794 / 2 ^ 54"
  "js_add (js_lit (1 / 10)) (js_lit (2 / 10)) = 5404319552844596 / 2 ^ 54"
  "js_mul (js_div 29 200) 100 = 8162774324609023 / 2 ^ 49"
  "js_round (js_mul (js_div 29 200) 100) = 14"
  "fl (1 / 3) = 6004799503160661 / 2 ^ 54"
  by code_simp+

section \<open>The report: grade and overall score\<close>

lemma gradeRank_scoreToGrade:
  "gradeRank (scoreToGrade s) =
     (if 90 \<le> s then 10 else if 85 \<le> s then 9 else if 80 \<le> s then 8 else if 75 \<le> s then 7
      else if 70 \<le> s then 6 else if 65 \<le> s then 5 else if 60 \<le> s then 4 else if 55 \<le> s then 3
      else if 50 \<le> s then 2 else if 40 \<le> s then 1 else 0)"
  by (simp add: scoreToGrade_def gradeRank_def GRADES_def)

lemma gradeRank_mono: "s \<le> t \<Longrightarrow> gradeRank (scoreToGrade s) \<le> gradeRank (scoreToGrade t)"
  unfolding gradeRank_scoreToGrade by (simp split: if_splits)

lemma scoreToGrade_in_GRADES: "scoreToGrade s \<in> set GRADES"
  by (simp add: scoreToGrade_def GRADES_def)

lemma GRADES_reached: "set GRADES \<subseteq> range scoreToGrade"
proof -
  have "set GRADES = scoreToGrade ` {39, 40, 50, 55, 60, 65, 70, 75, 80, 85, 90}"
    by (simp add: scoreToGrade_def GRADES_def)
  then show ?thesis by blast
qed

text \<open>
  Claim C2. The grade of a score is a function of the score alone, monotonic in it
  (a higher score never has a lower-ranked grade), given by the threshold table with
  inclusive lower bounds; it takes exactly the eleven grades A+, A, A-, B+, B, B-, C+, C,
  C-, D, F; and the grades of 90, 85, 79 and 39 are A+, A, B+ and F.
\<close>

theorem scoreToGrade_table:
  "(\<forall>s t. s \<le> t \<longrightarrow> gradeRank (scoreToGrade s) \<le> gradeRank (scoreToGrade t))
   \<and> range scoreToGrade = set GRADES \<and> distinct GRADES \<and> length GRADES = 11
   \<and> (\<forall>s. (scoreToGrade s = ''A+'') = (90 \<le> s)
        \<and> (scoreToGrade s = ''A'') = (85 \<le> s \<and> s < 90)
        \<and> (scoreToGrade s = ''A-'') = (80 \<le> s \<and> s < 85)
        \<and> (scoreToGrade s = ''B+'') = (75 \<le> s \<and> s < 80)
        \<and> (scoreToGrade s = ''B'') = (70 \<le> s \<and> s < 75)
        \<and> (scoreToGrade s = ''B-'') = (65 \<le> s \<and> s < 70)
        \<and> (scoreToGrade s = ''C+'') = (60 \<le> s \<and> s < 65)
        \<and> (scoreToGrade s = ''C'') = (55 \<le> s \<and> s < 60)
        \<and> (scoreToGrade s = ''C-'') = (50 \<le> s \<and> s < 55)
        \<and> (scoreToGrade s = ''D'') = (40 \<le> s \<and> s < 50)
        \<and> (scoreToGrade s = ''F'') = (s < 40))
   \<and> scoreToGrade 90 = ''A+'' \<and> scoreToGrade 85 = ''A'' \<and> scoreToGrade 79 = ''B+''
   \<and> scoreToGrade 39 = ''F''"
proof -
  have mono: "\<forall>s t. s \<le> t \<longrightarrow> gradeRank (scoreToGrade s) \<le> gradeRank (scoreToGrade t)"
    using gradeRank_mono by blast
  have rng: "range scoreToGrade = set GRADES"
    using scoreToGrade_in_GRADES GRADES_reached by blast
  have d: "distinct GRADES" by (simp add: GRADES_def)
  have l: "length GRADES = 11" by (simp add: GRADES_def)
  have tbl: "\<forall>s. (scoreToGrade s = ''A+'') = (90 \<le> s)
        \<and> (scoreToGrade s = ''A'') = (85 \<le> s \<and> s < 90)
        \<and> (scoreToGrade s = ''A-'') = (80 \<le> s \<and> s < 85)
        \<and> (scoreToGrade s = ''B+'') = (75 \<le> s \<and> s < 80)
        \<and> (scoreToGrade s = ''B'') = (70 \<le> s \<and> s < 75)
        \<and> (scoreToGrade s = ''B-'') = (65 \<le> s \<and> s < 70)
        \<and> (scoreToGrade s = ''C+'') = (60 \<le> s \<and> s < 65)
        \<and> (scoreToGrade s = ''C'') = (55 \<le> s \<and> s < 60)
        \<and> (scoreToGrade s = ''C-'') = (50 \<le> s \<and> s < 55)
        \<and> (scoreToGrade s = ''D'') = (40 \<le> s \<and> s < 50)
        \<and> (scoreToGrade s = ''F'') = (s < 40)"
    by (simp add: scoreToGrade_def)
  have ex: "scoreToGrade 90 = ''A+'' \<and> scoreToGrade 85 = ''A'' \<and> scoreToGrade 79 = ''B+''
     \<and> scoreToGrade 39 = ''F''"
    by (simp add: scoreToGrade_def)
  show ?thesis
    by (rule conjI[OF mono conjI[OF rng conjI[OF d conjI[OF l conjI[OF tbl ex]]]]])
qed

theorem scoreToGrade_table_witness:
  "(79::int) \<le> 90 \<and> gradeRank (scoreToGrade 79) \<le> gradeRank (scoreToGrade 90)
   \<and> gradeRank (scoreToGrade 79) = 7 \<and> gradeRank (scoreToGrade 90) = 10"
proof -
  have h: "(79::int) \<le> 90" by simp
  have "gradeRank (scoreToGrade 79) \<le> gradeRank (scoreToGrade 90)"
    by (rule scoreToGrade_table[THEN conjunct1, rule_format, OF h])
  then show ?thesis using h by (simp add: scoreToGrade_def gradeRank_def GRADES_def)
qed

lemma overallScore_of_compileReport:
  "report.overallScore (compileReport url now ls pm ca) =
     js_round (fl (fl (of_int (projectMetrics.score pm) * fl (2 / 5))
                 + fl (of_int (codeAnalysis.overallScore ca) * fl (3 / 5))))"
  by (simp add: compileReport_def Let_def js_add_def js_mul_def js_lit_def)

text \<open>
  Claim C1. For every project score \<open>p\<close> and code-analysis score \<open>c\<close> (integers from 0 to
  100, as all scores of the program are), the overall score of the report is
  \<open>p * 0.4 + c * 0.6\<close> rounded to the nearest integer: the three roundings to binary64
  of the source's expression never move the value across a rounding boundary. For
  \<open>p = 90\<close> and \<open>c = 74\<close> the overall score is 80.
\<close>

theorem compileReport_overallScore:
  assumes "0 \<le> projectMetrics.score pm" "projectMetrics.score pm \<le> 100"
    and "0 \<le> codeAnalysis.overallScore ca" "codeAnalysis.overallScore ca \<le> 100"
  shows "report.overallScore (compileReport url now ls pm ca) =
           round (of_int (projectMetrics.score pm) * (4 / 10)
                  + of_int (codeAnalysis.overallScore ca) * (6 / 10) :: rat)
         \<and> (projectMetrics.score pm = 90 \<and> codeAnalysis.overallScore ca = 74
              \<longrightarrow> report.overallScore (compileReport url now ls pm ca) = 80)"
proof -
  have eq: "report.overallScore (compileReport url now ls pm ca) =
           round (of_int (projectMetrics.score pm) * (4 / 10)
                  + of_int (codeAnalysis.overallScore ca) * (6 / 10) :: rat)"
    using weighted_score_exact[OF assms]
    by (simp add: overallScore_of_compileReport round_def)
  have "\<lfloor>(809::rat) / 10\<rfloor> = 80" by (rule floor_unique) simp_all
  then have "round (of_int 90 * (4 / 10) + of_int 74 * (6 / 10) :: rat) = 80"
    by (simp add: round_def)
  then show ?thesis using eq by auto
qed

theorem compileReport_overallScore_witness:
  "report.overallScore (compileReport ''https://github.com/o/r'' ''2024-01-01T00:00:00.000Z''
      \<lparr>primary = None, breakdown = [], totalFiles = 0, totalLines = 0\<rparr>
      \<lparr>hasReadme = True, readmeQuality = 100, hasLicense = True, hasTests = True,
        hasCI = True, hasDocker = False, hasPackageManager = True, hasDocs = False,
        structureScore = 100, projectMetrics.score = 90\<rparr>
      \<lparr>byLanguage = [], codeAnalysis.overallScore = 74, analyzedLanguages = [], message = None\<rparr>) = 80"
  using compileReport_overallScore[of
      "\<lparr>hasReadme = True, readmeQuality = 100, hasLicense = True, hasTests = True,
        hasCI = True, hasDocker = False, hasPackageManager = True, hasDocs = False,
        structureScore = 100, projectMetrics.score = 90\<rparr>"
      "\<lparr>byLanguage = [], codeAnalysis.overallScore = 74, analyzedLanguages = [], message = None\<rparr>"
      "''https://github.com/o/r''" "''2024-01-01T00:00:00.000Z''"
      "\<lparr>primary = None, breakdown = [], totalFiles = 0, totalLines = 0\<rparr>"]
  by simp

section \<open>The router: selection, weighting and failures\<close>

lemma analyzeLoop_totals:
  "analyzeLoop run xs (res, tw, ws) = (res', tw', ws') \<Longrightarrow>
     tw' = tw + sumWeights (succeeded run xs) \<and>
     ws' = ws + sumWeighted (succeeded run xs) \<and>
     analyzedLanguages res' = analyzedLanguages res @ map fst (succeeded run xs)"
proof (induction xs arbitrary: res tw ws)
  case Nil
  then show ?case by (simp add: sumWeights_def sumWeighted_def)
next
  case (Cons x xs)
  obtain lang d where x: "x = (lang, d)" by (cases x)
  show ?case
  proof (cases "map_of ANALYZERS lang")
    case None
    then show ?thesis using Cons.prems Cons.IH x by simp
  next
    case (Some ao)
    show ?thesis
    proof (cases ao)
      case None
      then show ?thesis using Cons.prems Cons.IH x Some by simp
    next
      case (Some a)
      show ?thesis
      proof (cases "run a")
        case (Inl msg)
        then show ?thesis using Cons.prems Cons.IH x \<open>map_of ANALYZERS lang = Some ao\<close> Some by simp
      next
        case (Inr analysis)
        then show ?thesis
          using Cons.prems x \<open>map_of ANALYZERS lang = Some ao\<close> Some
            Cons.IH[of "res\<lparr>byLanguage := AList.update lang analysis (byLanguage res),
                          analyzedLanguages := analyzedLanguages res @ [lang]\<rparr>"
                       "tw + percentage d" "ws + analysisResult.score analysis * percentage d"]
          by (simp add: sumWeights_def sumWeighted_def)
      qed
    qed
  qed
qed

lemma analyzeLoop_byLanguage:
  "analyzeLoop run xs (res, tw, ws) = (res', tw', ws') \<Longrightarrow>
     map_of ANALYZERS lang = Some (Some a) \<Longrightarrow>
     map_of (byLanguage res') lang =
       (if lang \<in> fst ` set xs
        then Some (case run a of Inr analysis \<Rightarrow> analysis | Inl msg \<Rightarrow> degraded msg)
        else map_of (byLanguage res) lang)"
proof (induction xs arbitrary: res tw ws)
  case Nil
  then show ?case by simp
next
  case (Cons x xs)
  obtain l d where x: "x = (l, d)" by (cases x)
  show ?case
  proof (cases "map_of ANALYZERS l")
    case None
    then have "l \<noteq> lang" using Cons.prems(2) by auto
    then show ?thesis using Cons.prems Cons.IH x None by simp
  next
    case (Some ao)
    show ?thesis
    proof (cases ao)
      case None
      then have "l \<noteq> lang" using Cons.prems(2) Some by auto
      then show ?thesis using Cons.prems Cons.IH x Some None by simp
    next
      case (Some a')
      note ao = \<open>map_of ANALYZERS l = Some ao\<close> Some
      show ?thesis
      proof (cases "run a'")
        case (Inl msg)
        define res1 where "res1 = res\<lparr>byLanguage := AList.update l (degraded msg) (byLanguage res)\<rparr>"
        have step: "analyzeLoop run xs (res1, tw, ws) = (res', tw', ws')"
          using Cons.prems(1) x ao Inl by (simp add: res1_def degraded_def)
        have ih: "map_of (byLanguage res') lang =
            (if lang \<in> fst ` set xs
             then Some (case run a of Inr analysis \<Rightarrow> analysis | Inl msg \<Rightarrow> degraded msg)
             else map_of (byLanguage res1) lang)"
          by (rule Cons.IH[OF step Cons.prems(2)])
        show ?thesis
        proof (cases "l = lang")
          case True
          then have "a' = a" using ao Cons.prems(2) by simp
          then show ?thesis using ih True Inl x by (simp add: res1_def update_conv')
        next
          case False
          then show ?thesis using ih x by (simp add: res1_def update_conv')
        qed
      next
        case (Inr analysis)
        define res1 where "res1 = res\<lparr>byLanguage := AList.update l analysis (byLanguage res),
                          analyzedLanguages := analyzedLanguages res @ [l]\<rparr>"
        have step: "analyzeLoop run xs (res1, tw + percentage d,
            ws + analysisResult.score analysis * percentage d) = (res', tw', ws')"
          using Cons.prems(1) x ao Inr by (simp add: res1_def)
        have ih: "map_of (byLanguage res') lang =
            (if lang \<in> fst ` set xs
             then Some (case run a of Inr analysis \<Rightarrow> analysis | Inl msg \<Rightarrow> degraded msg)
             else map_of (byLanguage res1) lang)"
          by (rule Cons.IH[OF step Cons.prems(2)])
        show ?thesis
        proof (cases "l = lang")
          case True
          then have "a' = a" using ao Cons.prems(2) by simp
          then show ?thesis using ih True Inr x by (simp add: res1_def update_conv')
        next
          case False
          then show ?thesis using ih x by (simp add: res1_def update_conv')
        qed
      qed
    qed
  qed
qed

lemma succeeded_fails:
  "map_of ANALYZERS lang = Some (Some a) \<Longrightarrow> run a = Inl msg \<Longrightarrow> lang \<notin> fst ` set (succeeded run xs)"
proof (induction xs)
  case Nil
  then show ?case by simp
next
  case (Cons x xs)
  obtain l d where x: "x = (l, d)" by (cases x)
  show ?case using Cons x
    by (auto split: option.splits sum.splits)
qed

lemma runAnalyzers_loop:
  "\<exists>res. analyzeLoop run (languagesToAnalyze ls)
      (\<lparr>byLanguage = [], codeAnalysis.overallScore = 0, analyzedLanguages = [], message = None\<rparr>, 0, 0)
      = (res, sumWeights (succeeded run (languagesToAnalyze ls)),
         sumWeighted (succeeded run (languagesToAnalyze ls)))
    \<and> analyzedLanguages res = map fst (succeeded run (languagesToAnalyze ls))
    \<and> (languagesToAnalyze ls \<noteq> [] \<longrightarrow> runAnalyzers run ls = res\<lparr>codeAnalysis.overallScore :=
         (if 0 < sumWeights (succeeded run (languagesToAnalyze ls))
          then js_round (js_div (of_int (sumWeighted (succeeded run (languagesToAnalyze ls))))
                                (of_int (sumWeights (succeeded run (languagesToAnalyze ls)))))
          else 50)\<rparr>)"
proof -
  define r0 where "r0 = \<lparr>byLanguage = [], codeAnalysis.overallScore = 0, analyzedLanguages = [], message = None\<rparr>"
  obtain res tw ws where l: "analyzeLoop run (languagesToAnalyze ls) (r0, 0, 0) = (res, tw, ws)"
    by (cases "analyzeLoop run (languagesToAnalyze ls) (r0, 0, 0)")
  from analyzeLoop_totals[OF l]
  have t: "tw = sumWeights (succeeded run (languagesToAnalyze ls))"
    "ws = sumWeighted (succeeded run (languagesToAnalyze ls))"
    "analyzedLanguages res = map fst (succeeded run (languagesToAnalyze ls))"
    by (simp_all add: r0_def)
  show ?thesis
    using l t by (auto simp add: runAnalyzers_def r0_def Let_def)
qed

lemma runAnalyzers_overallScore:
  "codeAnalysis.overallScore (runAnalyzers run ls) =
     (if 0 < sumWeights (succeeded run (languagesToAnalyze ls))
      then js_round (js_div (of_int (sumWeighted (succeeded run (languagesToAnalyze ls))))
                            (of_int (sumWeights (succeeded run (languagesToAnalyze ls)))))
      else 50)"
proof (cases "languagesToAnalyze ls = []")
  case True
  then show ?thesis by (simp add: runAnalyzers_def sumWeights_def)
next
  case False
  then show ?thesis using runAnalyzers_loop[of run ls] by auto
qed

lemma succeeded_set:
  "(l, w, s) \<in> set (succeeded run xs) \<Longrightarrow>
     \<exists>d a r. (l, d) \<in> set xs \<and> w = percentage d \<and> map_of ANALYZERS l = Some (Some a)
       \<and> run a = Inr r \<and> s = analysisResult.score r"
proof (induction xs)
  case Nil
  then show ?case by simp
next
  case (Cons x xs)
  obtain l' d' where x: "x = (l', d')" by (cases x)
  show ?case using Cons x
    by (fastforce split: option.splits sum.splits)
qed

lemma succeeded_length: "length (succeeded run xs) \<le> length xs"
proof (induction xs)
  case Nil
  then show ?case by simp
next
  case (Cons x xs)
  obtain l' d' where x: "x = (l', d')" by (cases x)
  show ?case using Cons x by (auto split: option.splits sum.splits)
qed

lemma sums_bounded:
  "\<forall>(l, w, s) \<in> set S. 5 \<le> w \<and> w \<le> 100 \<and> 0 \<le> s \<and> s \<le> 100 \<Longrightarrow>
     5 * int (length S) \<le> sumWeights S \<and> sumWeights S \<le> 100 * int (length S)
     \<and> 0 \<le> sumWeighted S \<and> sumWeighted S \<le> 10000 * int (length S)"
proof (induction S)
  case Nil
  then show ?case by (simp add: sumWeights_def sumWeighted_def)
next
  case (Cons x S)
  obtain l w s where x: "x = (l, w, s)" by (cases x)
  have b: "5 \<le> w" "w \<le> 100" "0 \<le> s" "s \<le> 100" using Cons.prems x by auto
  have "0 \<le> s * w" using b by simp
  moreover have "s * w \<le> 100 * 100" using b by (intro mult_mono) simp_all
  ultimately show ?case using Cons x b by (simp add: sumWeights_def sumWeighted_def)
qed

text \<open>
  Claim C3. The overall score of the code analysis is the percentage-weighted mean of the
  scores of the analyzed languages (those selected whose analyzer returned), rounded to
  the nearest integer, for percentages up to 100 and scores from 0 to 100: the binary64
  division never moves the quotient across a rounding boundary. With Python at 70 percent
  scoring 80 and JavaScript at 30 percent scoring 60 the score is 74.
\<close>

theorem runAnalyzers_weighted_mean:
  assumes pct: "\<forall>e \<in> set (breakdown ls). percentage (snd e) \<le> 100"
    and sc: "\<forall>a r. run a = Inr r \<longrightarrow> 0 \<le> analysisResult.score r \<and> analysisResult.score r \<le> 100"
    and ne: "succeeded run (languagesToAnalyze ls) \<noteq> []"
  shows "codeAnalysis.overallScore (runAnalyzers run ls) =
           round (of_int (sumWeighted (succeeded run (languagesToAnalyze ls)))
                  / of_int (sumWeights (succeeded run (languagesToAnalyze ls))) :: rat)
         \<and> (succeeded run (languagesToAnalyze ls) = [(''Python'', 70, 80), (''JavaScript'', 30, 60)]
              \<longrightarrow> codeAnalysis.overallScore (runAnalyzers run ls) = 74)"
proof -
  let ?S = "succeeded run (languagesToAnalyze ls)"
  have len: "length ?S \<le> 3"
    using succeeded_length[of run "languagesToAnalyze ls"] by (simp add: languagesToAnalyze_def)
  have el: "\<forall>(l, w, s) \<in> set ?S. 5 \<le> w \<and> w \<le> 100 \<and> 0 \<le> s \<and> s \<le> 100"
  proof (clarify)
    fix l w s assume "(l, w, s) \<in> set ?S"
    then obtain d a r where d: "(l, d) \<in> set (languagesToAnalyze ls)" "w = percentage d"
      "run a = Inr r" "s = analysisResult.score r"
      using succeeded_set by blast
    have "(l, d) \<in> set (filter (\<lambda>e. fst e \<in> set SUPPORTED_LANGUAGES \<and> 5 \<le> percentage (snd e))
       (breakdown ls))"
      using d(1) unfolding languagesToAnalyze_def by (rule in_set_takeD)
    then have "5 \<le> percentage d" "percentage d \<le> 100" using pct by auto
    then show "5 \<le> w \<and> w \<le> 100 \<and> 0 \<le> s \<and> s \<le> 100" using d sc by auto
  qed
  have pos: "0 < length ?S" using ne by simp
  have sb: "5 * int (length ?S) \<le> sumWeights ?S" "sumWeights ?S \<le> 100 * int (length ?S)"
    "0 \<le> sumWeighted ?S" "sumWeighted ?S \<le> 10000 * int (length ?S)"
    using sums_bounded[OF el] by simp_all
  have b1: "0 < sumWeights ?S" using sb(1) pos by linarith
  have b2: "sumWeights ?S < 2 ^ 52" using sb(2) len by simp
  have b3: "\<bar>sumWeighted ?S\<bar> < 2 ^ 52" using sb(3,4) len by simp
  have eq: "codeAnalysis.overallScore (runAnalyzers run ls) =
      round (of_int (sumWeighted ?S) / of_int (sumWeights ?S) :: rat)"
    using js_round_fl_div[OF b1 b2 b3] b1
    by (simp add: runAnalyzers_overallScore js_div_def round_def)
  have "\<lfloor>(149::rat) / 2\<rfloor> = 74" by (rule floor_unique) simp_all
  then have "round (of_int (sumWeighted [(''Python'', 70, 80), (''JavaScript'', 30, 60)])
      / of_int (sumWeights [(''Python'', 70, 80), (''JavaScript'', 30, 60)]) :: rat) = 74"
    by (simp add: sumWeighted_def sumWeights_def round_def)
  then show ?thesis using eq by auto
qed

theorem runAnalyzers_weighted_mean_witness:
  "succeeded exampleRun (languagesToAnalyze exampleStats) = [(''Python'', 70, 80), (''JavaScript'', 30, 60)]
   \<and> codeAnalysis.overallScore (runAnalyzers exampleRun exampleStats) = 74"
proof -
  have pct: "\<forall>e \<in> set (breakdown exampleStats). percentage (snd e) \<le> 100"
    by (simp add: exampleStats_def)
  have sc: "\<forall>a r. exampleRun a = Inr r \<longrightarrow> 0 \<le> analysisResult.score r \<and> analysisResult.score r \<le> 100"
    by (auto simp add: exampleRun_def split: analyzer.splits)
  have s: "succeeded exampleRun (languagesToAnalyze exampleStats) = [(''Python'', 70, 80), (''JavaScript'', 30, 60)]"
    by (simp add: languagesToAnalyze_def exampleStats_def SUPPORTED_LANGUAGES_def ANALYZERS_def
        exampleRun_def)
  then have ne: "succeeded exampleRun (languagesToAnalyze exampleStats) \<noteq> []" by simp
  show ?thesis using runAnalyzers_weighted_mean[OF pct sc ne] s by blast
qed

text \<open>
  Claim C5. When no language of the breakdown is both supported and at 5 percent or more,
  \<open>runAnalyzers\<close> returns the overall score 50 and an empty \<open>byLanguage\<close> (and no
  analyzed language).
\<close>

theorem runAnalyzers_none_qualify:
  assumes "\<forall>e \<in> set (breakdown ls). \<not> (fst e \<in> set SUPPORTED_LANGUAGES \<and> 5 \<le> percentage (snd e))"
  shows "codeAnalysis.overallScore (runAnalyzers run ls) = 50
         \<and> byLanguage (runAnalyzers run ls) = []
         \<and> analyzedLanguages (runAnalyzers run ls) = []"
proof -
  have "filter (\<lambda>e. fst e \<in> set SUPPORTED_LANGUAGES \<and> 5 \<le> percentage (snd e)) (breakdown ls) = []"
    using assms by (simp add: filter_empty_conv)
  then have "languagesToAnalyze ls = []" by (simp add: languagesToAnalyze_def)
  then show ?thesis by (simp add: runAnalyzers_def)
qed

theorem runAnalyzers_none_qualify_witness:
  "codeAnalysis.overallScore (runAnalyzers exampleRun rubyStats) = 50
   \<and> byLanguage (runAnalyzers exampleRun rubyStats) = []
   \<and> analyzedLanguages (runAnalyzers exampleRun rubyStats) = []"
proof -
  have h: "\<forall>e \<in> set (breakdown rubyStats).
      \<not> (fst e \<in> set SUPPORTED_LANGUAGES \<and> 5 \<le> percentage (snd e))"
    by (simp add: rubyStats_def SUPPORTED_LANGUAGES_def)
  show ?thesis by (rule runAnalyzers_none_qualify[OF h])
qed

text \<open>
  Claim C10. When the analyzer of a selected language throws, \<open>byLanguage\<close> holds for it
  the result with score 50 and the message of the error; the language is not among the
  analyzed languages, which are exactly those whose analyzer returned; the overall score
  is the rounded quotient of the weighted total by the total weight of those languages
  alone, and 50 when there is none.
\<close>

theorem runAnalyzers_analyzer_throws:
  assumes sel: "(lang, d) \<in> set (languagesToAnalyze ls)"
    and an: "map_of ANALYZERS lang = Some (Some a)"
    and thr: "run a = Inl msg"
  shows "map_of (byLanguage (runAnalyzers run ls)) lang =
           Some \<lparr>analysisResult.score = 50, complexityAverage = None, issuesLength = None,
                 error = Some msg\<rparr>
         \<and> lang \<notin> set (analyzedLanguages (runAnalyzers run ls))
         \<and> analyzedLanguages (runAnalyzers run ls) = map fst (succeeded run (languagesToAnalyze ls))
         \<and> lang \<notin> fst ` set (succeeded run (languagesToAnalyze ls))
         \<and> codeAnalysis.overallScore (runAnalyzers run ls) =
             (if 0 < sumWeights (succeeded run (languagesToAnalyze ls))
              then js_round (js_div (of_int (sumWeighted (succeeded run (languagesToAnalyze ls))))
                                    (of_int (sumWeights (succeeded run (languagesToAnalyze ls)))))
              else 50)
         \<and> (succeeded run (languagesToAnalyze ls) = []
              \<longrightarrow> codeAnalysis.overallScore (runAnalyzers run ls) = 50)"
proof -
  let ?S = "succeeded run (languagesToAnalyze ls)"
  have ne: "languagesToAnalyze ls \<noteq> []" using sel by auto
  obtain res where l: "analyzeLoop run (languagesToAnalyze ls)
      (\<lparr>byLanguage = [], codeAnalysis.overallScore = 0, analyzedLanguages = [], message = None\<rparr>, 0, 0)
      = (res, sumWeights ?S, sumWeighted ?S)"
    and al: "analyzedLanguages res = map fst ?S"
    and ra: "runAnalyzers run ls = res\<lparr>codeAnalysis.overallScore :=
         (if 0 < sumWeights ?S then js_round (js_div (of_int (sumWeighted ?S)) (of_int (sumWeights ?S)))
          else 50)\<rparr>"
    using runAnalyzers_loop[of run ls] ne by blast
  have "lang \<in> fst ` set (languagesToAnalyze ls)" using sel by force
  then have "map_of (byLanguage res) lang = Some (degraded msg)"
    using analyzeLoop_byLanguage[where run = run and a = a, OF l an] thr by simp
  then have c1: "map_of (byLanguage (runAnalyzers run ls)) lang =
           Some \<lparr>analysisResult.score = 50, complexityAverage = None, issuesLength = None,
                 error = Some msg\<rparr>"
    by (simp add: ra degraded_def)
  have c4: "lang \<notin> fst ` set ?S" by (rule succeeded_fails[where run = run and a = a, OF an thr])
  have c3: "analyzedLanguages (runAnalyzers run ls) = map fst ?S" by (simp add: ra al)
  have c2: "lang \<notin> set (analyzedLanguages (runAnalyzers run ls))" using c3 c4 by simp
  have c5: "codeAnalysis.overallScore (runAnalyzers run ls) =
             (if 0 < sumWeights ?S then js_round (js_div (of_int (sumWeighted ?S)) (of_int (sumWeights ?S)))
              else 50)"
    by (rule runAnalyzers_overallScore)
  have c6: "?S = [] \<longrightarrow> codeAnalysis.overallScore (runAnalyzers run ls) = 50"
    using c5 by (simp add: sumWeights_def)
  show ?thesis by (rule conjI[OF c1 conjI[OF c2 conjI[OF c3 conjI[OF c4 conjI[OF c5 c6]]]]])
qed

theorem runAnalyzers_analyzer_throws_witness:
  "map_of (byLanguage (runAnalyzers failingRun exampleStats)) ''Python'' =
     Some \<lparr>analysisResult.score = 50, complexityAverage = None, issuesLength = None,
           error = Some ''spawn python ENOENT''\<rparr>
   \<and> ''Python'' \<notin> set (analyzedLanguages (runAnalyzers failingRun exampleStats))
   \<and> analyzedLanguages (runAnalyzers failingRun exampleStats) = [''JavaScript'']
   \<and> succeeded failingRun (languagesToAnalyze exampleStats) = [(''JavaScript'', 30, 60)]"
proof -
  have sel: "(''Python'', \<lparr>ls_files = 7, ls_lines = 700, ls_bytes = 21000, percentage = 70\<rparr>)
      \<in> set (languagesToAnalyze exampleStats)"
    by (simp add: languagesToAnalyze_def exampleStats_def SUPPORTED_LANGUAGES_def)
  have an: "map_of ANALYZERS ''Python'' = Some (Some analyzePython)" by (simp add: ANALYZERS_def)
  have thr: "failingRun analyzePython = Inl ''spawn python ENOENT''" by (simp add: failingRun_def)
  have s: "succeeded failingRun (languagesToAnalyze exampleStats) = [(''JavaScript'', 30, 60)]"
    by (simp add: languagesToAnalyze_def exampleStats_def SUPPORTED_LANGUAGES_def ANALYZERS_def
        failingRun_def)
  show ?thesis using runAnalyzers_analyzer_throws[where run = failingRun and a = analyzePython, OF sel an thr] s
    by simp
qed

section \<open>The analyzers: complexity buckets, average and style fallback\<close>

text \<open>
  Claim C6. In the scanner of every language family (C/C++, JavaScript/TypeScript and
  Python), a function of complexity exactly 5 is counted in the bucket \<open>low\<close>, one of 6 in
  \<open>medium\<close>, one of 20 in \<open>high\<close> and one of 21 in \<open>veryHigh\<close>, and in no other bucket.
\<close>

theorem complexity_bucket_boundaries:
  "distribution (categorizeComplexity_cpp 5 r) = (distribution r)\<lparr>low := low (distribution r) + 1\<rparr>
   \<and> distribution (categorizeComplexity_cpp 6 r) = (distribution r)\<lparr>medium := medium (distribution r) + 1\<rparr>
   \<and> distribution (categorizeComplexity_cpp 20 r) = (distribution r)\<lparr>high := high (distribution r) + 1\<rparr>
   \<and> distribution (categorizeComplexity_cpp 21 r) = (distribution r)\<lparr>veryHigh := veryHigh (distribution r) + 1\<rparr>
   \<and> distribution (categorizeComplexity_js 5 r) = (distribution r)\<lparr>low := low (distribution r) + 1\<rparr>
   \<and> distribution (categorizeComplexity_js 6 r) = (distribution r)\<lparr>medium := medium (distribution r) + 1\<rparr>
   \<and> distribution (categorizeComplexity_js 20 r) = (distribution r)\<lparr>high := high (distribution r) + 1\<rparr>
   \<and> distribution (categorizeComplexity_js 21 r) = (distribution r)\<lparr>veryHigh := veryHigh (distribution r) + 1\<rparr>
   \<and> dist (radonStep file st (func\<lparr>rf_complexity := 5\<rparr>)) = (dist st)\<lparr>low := low (dist st) + 1\<rparr>
   \<and> dist (radonStep file st (func\<lparr>rf_complexity := 6\<rparr>)) = (dist st)\<lparr>medium := medium (dist st) + 1\<rparr>
   \<and> dist (radonStep file st (func\<lparr>rf_complexity := 20\<rparr>)) = (dist st)\<lparr>high := high (dist st) + 1\<rparr>
   \<and> dist (radonStep file st (func\<lparr>rf_complexity := 21\<rparr>)) = (dist st)\<lparr>veryHigh := veryHigh (dist st) + 1\<rparr>"
  by (simp add: categorizeComplexity_cpp_def categorizeComplexity_js_def radonStep_def Let_def)

text \<open>
  Claim C7. In the C/C++ analyzer, whenever at least one function was counted, the
  average complexity is the total of the bucket counts weighted by 3 (low), 7 (medium),
  15 (high) and 25 (veryHigh), divided by the number of functions and rounded to the
  nearest integer; it is not a mean of the functions' own complexities. The counts are
  below \<open>2 ^ 52\<close>, where the counters of the source are exact.
\<close>

theorem cppComplexityAverage_weights:
  assumes f: "0 < functions" "functions < 2 ^ 52"
    and t: "3 * low (distribution r) + 7 * medium (distribution r) + 15 * high (distribution r)
            + 25 * veryHigh (distribution r) < 2 ^ 52"
  shows "average (cppComplexityAverage functions r) =
           of_int (round (of_nat (3 * low (distribution r) + 7 * medium (distribution r)
                                  + 15 * high (distribution r) + 25 * veryHigh (distribution r))
                          / of_nat functions :: rat))"
proof -
  define tc where "tc = 3 * low (distribution r) + 7 * medium (distribution r)
      + 15 * high (distribution r) + 25 * veryHigh (distribution r)"
  have tc: "low (distribution r) * 3 + medium (distribution r) * 7 + high (distribution r) * 15
      + veryHigh (distribution r) * 25 = tc"
    by (simp add: tc_def)
  have b1: "0 < int functions" using f by simp
  have b2: "int functions < 2 ^ 52" using f(2) by (metis of_nat_less_iff of_nat_numeral of_nat_power)
  have "int tc < 2 ^ 52" using t unfolding tc_def[symmetric] by (metis of_nat_less_iff of_nat_numeral of_nat_power)
  then have b3: "\<bar>int tc\<bar> < 2 ^ 52" by simp
  have "js_round (fl (of_int (int tc) / of_int (int functions)))
      = \<lfloor>(of_int (int tc) / of_int (int functions) :: rat) + 1 / 2\<rfloor>"
    by (rule js_round_fl_div[OF b1 b2 b3])
  then have "js_round (js_div (of_nat tc) (of_nat functions)) = round (of_nat tc / of_nat functions :: rat)"
    by (simp add: js_div_def round_def)
  then show ?thesis using f(1) tc
    by (simp add: cppComplexityAverage_def Let_def tc_def[symmetric])
qed

theorem cppComplexityAverage_weights_witness:
  "average (cppComplexityAverage 2
      \<lparr>average = 0, maxComplexity = 1, distribution = \<lparr>low = 2, medium = 0, high = 0, veryHigh = 0\<rparr>\<rparr>) = 3"
proof -
  have "\<lfloor>(7::rat) / 2\<rfloor> = 3" by (rule floor_unique) simp_all
  then have "round ((6::rat) / 2) = 3" by (simp add: round_def)
  then show ?thesis
    using cppComplexityAverage_weights[of 2
      "\<lparr>average = 0, maxComplexity = 1, distribution = \<lparr>low = 2, medium = 0, high = 0, veryHigh = 0\<rparr>\<rparr>"]
    by simp
qed

text \<open>
  Claim C9, evaluated on the code. The claim asks for the style score 85 when pylint ran
  and reported no issue and 70 when it was unavailable or failed. When the command fails
  having printed nothing (pylint or python not installed), or its error carries no
  output at all, \<open>analyzeStyle\<close> gives 85 and sets no error: the same score as for the
  report \<^verbatim>\<open>[]\<close> of a clean run. Only output that cannot be parsed, or a call of
  \<^verbatim>\<open>execAsync\<close> that throws before it returns, gives 70.
\<close>

theorem analyzeStyle_unavailable_tool:
  "style.score (analyzeStyle parsePylint (Rejected (Some []) (Some err)) st) = 85
   \<and> style.error (analyzeStyle parsePylint (Rejected (Some []) (Some err)) st) = style.error st
   \<and> style.score (analyzeStyle parsePylint (Rejected None None) st) = 85
   \<and> style.score (analyzeStyle parsePylint (Resolved ''[]'' []) st) = 85
   \<and> style.score (analyzeStyle (\<lambda>out. None) (Resolved ''Traceback'' []) st) = 70
   \<and> style.score (analyzeStyle parsePylint Threw st) = 70
   \<and> style.error (analyzeStyle parsePylint Threw st) = Some ''Style analysis limited''"
  by (simp add: analyzeStyle_def trim_def isSpace_def)

section \<open>Language detection: the primary language\<close>

lemma maxLines_ge: "e \<in> set st \<Longrightarrow> lines (snd e) \<le> maxLines st"
  by (induction st) auto

lemma maxLines_attained: "st \<noteq> [] \<Longrightarrow> \<exists>e \<in> set st. lines (snd e) = maxLines st"
proof (induction st)
  case Nil
  then show ?case by simp
next
  case (Cons e es)
  show ?case
  proof (cases "es = []")
    case True
    then show ?thesis by simp
  next
    case False
    then obtain e' where "e' \<in> set es" "lines (snd e') = maxLines es" using Cons.IH by blast
    then show ?thesis by (cases "maxLines es \<le> lines (snd e)") (auto simp: max_def)
  qed
qed

lemma percentLoop_primary:
  "fst (snd (percentLoop tot st (m, p, bd))) =
     (if maxLines st \<le> m then p
      else map_option fst (find (\<lambda>e. lines (snd e) = maxLines st) st))"
proof (induction st arbitrary: m p bd)
  case Nil
  then show ?case by simp
next
  case (Cons x st)
  obtain l d where x: "x = (l, d)" by (cases x)
  show ?case
  proof (cases "m < lines d")
    case True
    then show ?thesis using Cons.IH x by (auto simp add: Let_def max_def)
  next
    case False
    then show ?thesis using Cons.IH x by (auto simp add: Let_def max_def)
  qed
qed

lemma primary_summarize:
  "primary (summarize st) =
     (if maxLines st = 0 then None
      else map_option fst (find (\<lambda>e. lines (snd e) = maxLines st) st))"
proof -
  obtain m p bd where r: "percentLoop (sum_list (map (\<lambda>e. lines (snd e)) st)) st (0, None, []) = (m, p, bd)"
    by (cases "percentLoop (sum_list (map (\<lambda>e. lines (snd e)) st)) st (0, None, [])")
  have "p = fst (snd (percentLoop (sum_list (map (\<lambda>e. lines (snd e)) st)) st (0, None, [])))"
    by (simp add: r)
  then have "p = (if maxLines st = 0 then None
      else map_option fst (find (\<lambda>e. lines (snd e) = maxLines st) st))"
    by (simp add: percentLoop_primary)
  then show ?thesis by (simp add: summarize_def Let_def r)
qed

lemma map_fst_map_entry: "map fst (AList.map_entry k f xs) = map fst xs"
  by (induction xs) auto

lemma map_fst_visit:
  "map fst (visit st v) =
     (case labelOf v of None \<Rightarrow> map fst st
      | Some l \<Rightarrow> if l \<in> set (map fst st) then map fst st else map fst st @ [l])"
proof (cases "labelOf v")
  case None
  then show ?thesis by (simp add: visit_def labelOf_def)
next
  case (Some l)
  have n: "(map_of st l = None) = (l \<notin> set (map fst st))" by (simp add: map_of_eq_None_iff)
  show ?thesis
    using Some n by (cases "snd v") (auto simp add: visit_def labelOf_def map_fst_map_entry Let_def)
qed

lemma firstSeen_visit:
  "map fst (foldl visit st vs) = firstSeen (map fst st) (List.map_filter labelOf vs)"
proof (induction vs arbitrary: st)
  case Nil
  then show ?case by (simp add: List.map_filter_simps)
next
  case (Cons v vs)
  show ?case
    using Cons.IH[of "visit st v"]
    by (cases "labelOf v") (auto simp add: List.map_filter_simps map_fst_visit)
qed


lemma distinct_firstSeen: "distinct seen \<Longrightarrow> distinct (firstSeen seen ls)"
  by (induction ls arbitrary: seen) auto

lemma linesIn_visit:
  "linesIn (visit st v) l = linesIn st l + (if labelOf v = Some l then fileLines v else 0)"
proof (cases "labelOf v")
  case None
  then show ?thesis by (simp add: visit_def labelOf_def)
next
  case (Some k)
  define st1 where "st1 = (if map_of st k = None
      then st @ [(k, \<lparr>files = 0, lines = 0, bytes = 0\<rparr>)] else st)"
  have l1: "linesIn st1 l = linesIn st l"
    by (auto simp add: st1_def linesIn_def map_add_def split: option.splits)
  have k1: "map_of st1 k \<noteq> None"
    by (auto simp add: st1_def map_add_def split: option.splits)
  show ?thesis
  proof (cases "snd v")
    case None
    have "visit st v = AList.map_entry k (\<lambda>d. d\<lparr>files := files d + 1\<rparr>) st1"
      using Some None by (simp add: visit_def labelOf_def st1_def)
    then show ?thesis using l1 k1 Some None
      by (auto simp add: linesIn_def map_of_map_entry fileLines_def split: option.splits)
  next
    case (Some cn)
    obtain content nbytes where cn: "cn = (content, nbytes)" by (cases cn)
    have "visit st v = AList.map_entry k
        (\<lambda>d. \<lparr>files = files d + 1, lines = lines d + splitLinesLength content,
              bytes = bytes d + nbytes\<rparr>) st1"
      using \<open>labelOf v = Some k\<close> Some cn by (simp add: visit_def labelOf_def st1_def)
    then show ?thesis using l1 k1 \<open>labelOf v = Some k\<close> Some cn
      by (auto simp add: linesIn_def map_of_map_entry fileLines_def split: option.splits)
  qed
qed

lemma linesIn_foldl_visit:
  "linesIn (foldl visit st vs) l = linesIn st l + linesOfLabel l vs"
proof (induction vs arbitrary: st)
  case Nil
  then show ?case by (simp add: linesOfLabel_def)
next
  case (Cons v vs)
  show ?case using Cons.IH[of "visit st v"]
    by (simp add: linesIn_visit linesOfLabel_def)
qed

lemma stats_lines:
  assumes "e \<in> set (foldl visit [] vs)"
  shows "lines (snd e) = linesOfLabel (fst e) vs"
proof -
  let ?st = "foldl visit [] vs"
  have "distinct (map fst ?st)"
    using distinct_firstSeen[of "[]"] by (simp add: firstSeen_visit)
  then have "map_of ?st (fst e) = Some (snd e)" using assms by simp
  then have "linesIn ?st (fst e) = lines (snd e)" by (simp add: linesIn_def)
  then show ?thesis using linesIn_foldl_visit[of "[]" vs "fst e"] by (simp add: linesIn_def)
qed

lemma find_eq_on: "(\<And>x. x \<in> set xs \<Longrightarrow> P x = Q x) \<Longrightarrow> find P xs = find Q xs"
  by (induction xs) auto

lemma find_over_map: "find P (map f xs) = map_option f (find (\<lambda>x. P (f x)) xs)"
  by (induction xs) auto

lemma labelOf_examples:
  "labelOf (''b.js'', r) = Some ''JavaScript''"
  "labelOf (''a.py'', r) = Some ''Python''"
  "labelOf (''c.rb'', r) = Some ''Ruby''"
  by (simp_all add: labelOf_def EXTENSION_MAP_def toLowerCase_def extname_def lowerChar_def)

lemma primary_when_positive:
  assumes walk: "walkDirectory repoDir = Inr vs"
    and pos: "\<exists>l \<in> set (firstSeen [] (List.map_filter labelOf vs)). 0 < linesOfLabel l vs"
  shows "detectLanguages repoDir = Inr (summarize (foldl visit [] vs))
         \<and> primary (summarize (foldl visit [] vs)) =
             find (\<lambda>l. \<forall>k \<in> set (firstSeen [] (List.map_filter labelOf vs)).
                          linesOfLabel k vs \<le> linesOfLabel l vs)
                  (firstSeen [] (List.map_filter labelOf vs))"
proof -
  let ?st = "foldl visit [] vs"
  let ?order = "firstSeen [] (List.map_filter labelOf vs)"
  have ord: "map fst ?st = ?order" using firstSeen_visit[of "[]" vs] by simp
  have d: "detectLanguages repoDir = Inr (summarize ?st)"
    using walk by (simp add: detectLanguages_def)
  obtain l where l: "l \<in> set ?order" "0 < linesOfLabel l vs" using pos by blast
  then obtain e where e: "e \<in> set ?st" "fst e = l" using ord by (metis (no_types, lifting) imageE list.set_map)
  have "0 < lines (snd e)" using stats_lines[OF e(1)] e(2) l(2) by simp
  then have mpos: "maxLines ?st \<noteq> 0" using maxLines_ge[OF e(1)] by simp
  have ne: "?st \<noteq> []" using e(1) by auto
  have pe: "\<And>x. x \<in> set ?st \<Longrightarrow>
      (lines (snd x) = maxLines ?st) =
      (\<forall>k \<in> set ?order. linesOfLabel k vs \<le> linesOfLabel (fst x) vs)"
  proof -
    fix x assume x: "x \<in> set ?st"
    show "(lines (snd x) = maxLines ?st) =
      (\<forall>k \<in> set ?order. linesOfLabel k vs \<le> linesOfLabel (fst x) vs)"
    proof
      assume m: "lines (snd x) = maxLines ?st"
      have "\<forall>k \<in> set ?order. linesOfLabel k vs \<le> linesOfLabel (fst x) vs"
      proof
        fix k assume "k \<in> set ?order"
        then obtain y where y: "y \<in> set ?st" "fst y = k" using ord by (metis (no_types, lifting) imageE list.set_map)
        have "lines (snd y) \<le> lines (snd x)" using maxLines_ge[OF y(1)] m by simp
        then show "linesOfLabel k vs \<le> linesOfLabel (fst x) vs"
          using stats_lines[OF y(1)] stats_lines[OF x] y(2) by simp
      qed
      then show "(\<forall>k \<in> set ?order. linesOfLabel k vs \<le> linesOfLabel (fst x) vs)" .
    next
      assume a: "(\<forall>k \<in> set ?order. linesOfLabel k vs \<le> linesOfLabel (fst x) vs)"
      obtain y where y: "y \<in> set ?st" "lines (snd y) = maxLines ?st"
        using maxLines_attained[OF ne] by blast
      have "fst y \<in> set ?order" using y(1) ord by (metis (no_types, lifting) image_eqI list.set_map)
      then have "linesOfLabel (fst y) vs \<le> linesOfLabel (fst x) vs" using a by simp
      then have "maxLines ?st \<le> lines (snd x)" using stats_lines[OF y(1)] stats_lines[OF x] y(2) by simp
      then show "lines (snd x) = maxLines ?st" using maxLines_ge[OF x] by simp
    qed
  qed
  have "primary (summarize ?st) = map_option fst (find (\<lambda>e. lines (snd e) = maxLines ?st) ?st)"
    using mpos by (simp add: primary_summarize)
  also have "\<dots> = map_option fst
      (find (\<lambda>x. \<forall>k \<in> set ?order. linesOfLabel k vs \<le> linesOfLabel (fst x) vs) ?st)"
    using find_eq_on[of ?st, OF pe] by simp
  also have "\<dots> = find (\<lambda>l. \<forall>k \<in> set ?order. linesOfLabel k vs \<le> linesOfLabel l vs) (map fst ?st)"
    by (simp add: find_over_map)
  finally show ?thesis using d ord by simp
qed


lemma primary_when_zero:
  assumes zero: "\<forall>l \<in> set (firstSeen [] (List.map_filter labelOf vs)). linesOfLabel l vs = 0"
  shows "primary (summarize (foldl visit [] vs)) = None"
proof -
  let ?st = "foldl visit [] vs"
  have ord: "map fst ?st = firstSeen [] (List.map_filter labelOf vs)"
    using firstSeen_visit[of "[]" vs] by simp
  have "maxLines ?st = 0"
  proof (cases "?st = []")
    case True
    then show ?thesis by simp
  next
    case False
    then obtain e where e: "e \<in> set ?st" "lines (snd e) = maxLines ?st"
      using maxLines_attained by blast
    have "fst e \<in> set (map fst ?st)" using e(1) by simp
    then have "linesOfLabel (fst e) vs = 0" using zero ord by simp
    then show ?thesis using stats_lines[OF e(1)] e(2) by simp
  qed
  then show ?thesis by (simp add: primary_summarize)
qed

text \<open>
  Claim C8, as amended. For every file tree whose walk succeeds: when some language has a
  positive total line count, the primary language is the first label, in the order in
  which the walk first encounters the labels, whose total line count is at least that of
  every label (among languages tied at the maximum, the one encountered first); when
  every detected language has zero lines, the primary language is \<^verbatim>\<open>null\<close>. The
  result is a function of the tree as listed, hence the same on every run over an
  unchanged tree.
\<close>

theorem primary_first_encountered:
  assumes walk: "walkDirectory repoDir = Inr vs"
  shows "detectLanguages repoDir = Inr (summarize (foldl visit [] vs))
         \<and> ((\<exists>l \<in> set (firstSeen [] (List.map_filter labelOf vs)). 0 < linesOfLabel l vs) \<longrightarrow>
              primary (summarize (foldl visit [] vs)) =
                find (\<lambda>l. \<forall>k \<in> set (firstSeen [] (List.map_filter labelOf vs)).
                             linesOfLabel k vs \<le> linesOfLabel l vs)
                     (firstSeen [] (List.map_filter labelOf vs)))
         \<and> ((\<forall>l \<in> set (firstSeen [] (List.map_filter labelOf vs)). linesOfLabel l vs = 0) \<longrightarrow>
              primary (summarize (foldl visit [] vs)) = None)"
proof -
  have d: "detectLanguages repoDir = Inr (summarize (foldl visit [] vs))"
    using walk by (simp add: detectLanguages_def)
  have p: "(\<exists>l \<in> set (firstSeen [] (List.map_filter labelOf vs)). 0 < linesOfLabel l vs) \<longrightarrow>
      primary (summarize (foldl visit [] vs)) =
        find (\<lambda>l. \<forall>k \<in> set (firstSeen [] (List.map_filter labelOf vs)).
                     linesOfLabel k vs \<le> linesOfLabel l vs)
             (firstSeen [] (List.map_filter labelOf vs))"
    using primary_when_positive[OF walk] by blast
  have z: "(\<forall>l \<in> set (firstSeen [] (List.map_filter labelOf vs)). linesOfLabel l vs = 0) \<longrightarrow>
      primary (summarize (foldl visit [] vs)) = None"
    using primary_when_zero by blast
  show ?thesis by (rule conjI[OF d conjI[OF p z]])
qed

theorem primary_first_encountered_witness:
  "detectLanguages (Some [File ''b.js'' (Some ([CHR ''1'', CHR 0x0A, CHR ''2''], 3)),
                          Dir ''src'' (Some [File ''a.py'' (Some ([CHR ''1'', CHR 0x0A, CHR ''2''], 3))]),
                          File ''c.rb'' (Some (''xy'', 2))])
     = Inr (summarize (foldl visit []
         [(''b.js'', Some ([CHR ''1'', CHR 0x0A, CHR ''2''], 3)),
          (''a.py'', Some ([CHR ''1'', CHR 0x0A, CHR ''2''], 3)),
          (''c.rb'', Some (''xy'', 2))]))
   \<and> primary (summarize (foldl visit []
         [(''b.js'', Some ([CHR ''1'', CHR 0x0A, CHR ''2''], 3)),
          (''a.py'', Some ([CHR ''1'', CHR 0x0A, CHR ''2''], 3)),
          (''c.rb'', Some (''xy'', 2))])) = Some ''JavaScript''
   \<and> detectLanguages (Some [File ''c.rb'' None, Dir ''lib'' (Some [File ''a.py'' None])])
     = Inr (summarize (foldl visit [] [(''c.rb'', None), (''a.py'', None)]))
   \<and> primary (summarize (foldl visit [] [(''c.rb'', None), (''a.py'', None)])) = None"
proof -
  let ?vs = "[(''b.js'', Some ([CHR ''1'', CHR 0x0A, CHR ''2''], 3)),
          (''a.py'', Some ([CHR ''1'', CHR 0x0A, CHR ''2''], 3)),
          (''c.rb'', Some (''xy'', 2::nat))]"
  let ?ws = "[(''c.rb'', None), (''a.py'', None)] :: visited list"
  have walk: "walkDirectory (Some [File ''b.js'' (Some ([CHR ''1'', CHR 0x0A, CHR ''2''], 3)),
                          Dir ''src'' (Some [File ''a.py'' (Some ([CHR ''1'', CHR 0x0A, CHR ''2''], 3))]),
                          File ''c.rb'' (Some (''xy'', 2))]) = Inr ?vs"
    by (simp add: IGNORE_DIRS_def startsWith_def)
  have order: "firstSeen [] (List.map_filter labelOf ?vs) = [''JavaScript'', ''Python'', ''Ruby'']"
    by (simp add: List.map_filter_simps labelOf_examples)
  have ls: "linesOfLabel ''JavaScript'' ?vs = 2" "linesOfLabel ''Python'' ?vs = 2"
    "linesOfLabel ''Ruby'' ?vs = 1"
    by (simp_all add: linesOfLabel_def labelOf_examples fileLines_def splitLinesLength_def)
  have pos: "\<exists>l \<in> set (firstSeen [] (List.map_filter labelOf ?vs)). 0 < linesOfLabel l ?vs"
    unfolding order using ls(1) by (intro bexI[of _ "''JavaScript''"]) simp_all
  have first: "find (\<lambda>l. \<forall>k \<in> set [''JavaScript'', ''Python'', ''Ruby''].
      linesOfLabel k ?vs \<le> linesOfLabel l ?vs) [''JavaScript'', ''Python'', ''Ruby'']
      = Some ''JavaScript''"
    by (simp add: ls)
  note t = primary_first_encountered[OF walk]
  have a1: "detectLanguages (Some [File ''b.js'' (Some ([CHR ''1'', CHR 0x0A, CHR ''2''], 3)),
                          Dir ''src'' (Some [File ''a.py'' (Some ([CHR ''1'', CHR 0x0A, CHR ''2''], 3))]),
                          File ''c.rb'' (Some (''xy'', 2))]) = Inr (summarize (foldl visit [] ?vs))"
    by (rule t[THEN conjunct1])
  have "primary (summarize (foldl visit [] ?vs)) =
      find (\<lambda>l. \<forall>k \<in> set (firstSeen [] (List.map_filter labelOf ?vs)).
                   linesOfLabel k ?vs \<le> linesOfLabel l ?vs)
           (firstSeen [] (List.map_filter labelOf ?vs))"
    by (rule t[THEN conjunct2, THEN conjunct1, THEN mp, OF pos])
  then have a2: "primary (summarize (foldl visit [] ?vs)) = Some ''JavaScript''"
    unfolding order first .
  have walk0: "walkDirectory (Some [File ''c.rb'' None, Dir ''lib'' (Some [File ''a.py'' None])])
      = Inr ?ws"
    by (simp add: IGNORE_DIRS_def startsWith_def)
  have order0: "firstSeen [] (List.map_filter labelOf ?ws) = [''Ruby'', ''Python'']"
    by (simp add: List.map_filter_simps labelOf_examples)
  have ls0: "linesOfLabel ''Ruby'' ?ws = 0" "linesOfLabel ''Python'' ?ws = 0"
    by (simp_all add: linesOfLabel_def labelOf_examples fileLines_def)
  have zero: "\<forall>l \<in> set (firstSeen [] (List.map_filter labelOf ?ws)). linesOfLabel l ?ws = 0"
    unfolding order0 using ls0 by simp
  note t0 = primary_first_encountered[OF walk0]
  have b1: "detectLanguages (Some [File ''c.rb'' None, Dir ''lib'' (Some [File ''a.py'' None])])
      = Inr (summarize (foldl visit [] ?ws))"
    by (rule t0[THEN conjunct1])
  have b2: "primary (summarize (foldl visit [] ?ws)) = None"
    by (rule t0[THEN conjunct2, THEN conjunct2, THEN mp, OF zero])
  show ?thesis by (rule conjI[OF a1 conjI[OF a2 conjI[OF b1 b2]]])
qed

text \<open>
  The claim C8 as stated fails when the tie is at zero lines: two files of different
  languages that cannot be read give both languages the maximal line count 0, Python is
  encountered first, and the primary language is \<^verbatim>\<open>null\<close>.
\<close>

theorem primary_tie_at_zero_counterexample:
  "detectLanguages (Some [File ''a.py'' None, File ''b.js'' None])
     = Inr \<lparr>primary = None,
            breakdown = [(''Python'', \<lparr>ls_files = 1, ls_lines = 0, ls_bytes = 0, percentage = 0\<rparr>),
                         (''JavaScript'', \<lparr>ls_files = 1, ls_lines = 0, ls_bytes = 0, percentage = 0\<rparr>)],
            totalFiles = 2, totalLines = 0\<rparr>
   \<and> foldl visit [] [(''a.py'', None), (''b.js'', None)]
     = [(''Python'', \<lparr>files = 1, lines = 0, bytes = 0\<rparr>),
        (''JavaScript'', \<lparr>files = 1, lines = 0, bytes = 0\<rparr>)]"
proof -
  have l: "map_of EXTENSION_MAP (toLowerCase (extname ''a.py'')) = Some ''Python''"
    "map_of EXTENSION_MAP (toLowerCase (extname ''b.js'')) = Some ''JavaScript''"
    using labelOf_examples(1,2)[of None] by (simp_all add: labelOf_def)
  have v1: "visit [] (''a.py'', None) = [(''Python'', \<lparr>files = 1, lines = 0, bytes = 0\<rparr>)]"
    by (simp add: visit_def l)
  have v2: "visit [(''Python'', \<lparr>files = 1, lines = 0, bytes = 0\<rparr>)] (''b.js'', None)
     = [(''Python'', \<lparr>files = 1, lines = 0, bytes = 0\<rparr>),
        (''JavaScript'', \<lparr>files = 1, lines = 0, bytes = 0\<rparr>)]"
    by (simp add: visit_def l)
  have st: "foldl visit [] [(''a.py'', None), (''b.js'', None)]
     = [(''Python'', \<lparr>files = 1, lines = 0, bytes = 0\<rparr>),
        (''JavaScript'', \<lparr>files = 1, lines = 0, bytes = 0\<rparr>)]"
    by (simp only: foldl.simps v1 v2)
  have su: "summarize [(''Python'', \<lparr>files = 1, lines = 0, bytes = 0\<rparr>),
        (''JavaScript'', \<lparr>files = 1, lines = 0, bytes = 0\<rparr>)]
     = \<lparr>primary = None,
            breakdown = [(''Python'', \<lparr>ls_files = 1, ls_lines = 0, ls_bytes = 0, percentage = 0\<rparr>),
                         (''JavaScript'', \<lparr>ls_files = 1, ls_lines = 0, ls_bytes = 0, percentage = 0\<rparr>)],
            totalFiles = 2, totalLines = 0\<rparr>"
    by (simp add: summarize_def sortByLines_def)
  have w: "walkDirectory (Some [File ''a.py'' None, File ''b.js'' None])
      = Inr [(''a.py'', None), (''b.js'', None)]" by simp
  have "detectLanguages (Some [File ''a.py'' None, File ''b.js'' None])
     = Inr (summarize (foldl visit [] [(''a.py'', None), (''b.js'', None)]))"
    unfolding detectLanguages_def w by simp
  then show ?thesis unfolding st su using st by simp
qed

section \<open>The pipeline on a repository without files\<close>

text \<open>
  Claim C4, evaluated on the code. The claim asks for an error surfaced to the caller
  when the repository has no file. On a cloned directory that is empty, or holds only
  \<^verbatim>\<open>.git\<close>, \<open>analyzeRepo\<close> returns a report, whatever the project metrics and the
  analyzers' outcomes are: no language is detected and the code-analysis score is the
  default 50.
\<close>

theorem analyzeRepo_empty_repository:
  "analyzeRepo url now (Inr []) (Inr pm) run =
     Inr (compileReport url now \<lparr>primary = None, breakdown = [], totalFiles = 0, totalLines = 0\<rparr> pm
            \<lparr>byLanguage = [], codeAnalysis.overallScore = 50, analyzedLanguages = [],
              message = Some ''No supported languages found with significant code''\<rparr>)
   \<and> analyzeRepo url now (Inr [Dir ''.git'' sub]) (Inr pm) run =
     Inr (compileReport url now \<lparr>primary = None, breakdown = [], totalFiles = 0, totalLines = 0\<rparr> pm
            \<lparr>byLanguage = [], codeAnalysis.overallScore = 50, analyzedLanguages = [],
              message = Some ''No supported languages found with significant code''\<rparr>)"
  by (simp add: analyzeRepo_def detectLanguages_def summarize_def sortByLines_def runAnalyzers_def
      languagesToAnalyze_def IGNORE_DIRS_def)

end
